theory Spec2Isabelle
  imports Main "HOL-Library.Word"
begin

section \<open>Data model\<close>

text \<open>
  The TLS side of the package works on \<^verbatim>\<open>utls.ClientHelloSpec\<close>: a cipher-suite list, a
  compression-method list, a list of extension objects, the version bounds and the
  session-id function. \<^verbatim>\<open>utls.CurveID\<close> is a \<^verbatim>\<open>uint16\<close>, so the conversions
  \<^verbatim>\<open>uint16(keyShare.Group)\<close> and \<^verbatim>\<open>uint16(keyShare)\<close> of \<^verbatim>\<open>changeSpec\<close> are the identity.
  Only three extension kinds are inspected by the package (key share, supported curves,
  ALPN); every other kind is carried along as an opaque value.
\<close>

type_synonym CurveID = "16 word"

record KeyShare =
  Group :: CurveID
  Data :: "8 word list"

datatype TLSExtension =
    KeyShareExtension "KeyShare list"
  | SupportedCurvesExtension "CurveID list"
  | ALPNExtension "string list"
  | OtherExtension nat "8 word list"

text \<open>
  \<^verbatim>\<open>GetSessionID\<close> is a function-valued field: \<^verbatim>\<open>nil\<close>, \<^verbatim>\<open>sha256.Sum256\<close>, or any other
  function (identified by a number).
\<close>

datatype SessionIDFunc = NilFunc | Sha256Sum256 | OtherFunc nat

record ClientHelloSpec =
  CipherSuites :: "16 word list"
  CompressionMethods :: "8 word list"
  Extensions :: "TLSExtension list"
  TLSVersMin :: "16 word"
  TLSVersMax :: "16 word"
  GetSessionID :: SessionIDFunc

text \<open>
  \<^verbatim>\<open>specErr\<close> has the single field \<^verbatim>\<open>KeyShareExtension *kinds.Set[uint16]\<close>; the record is
  modelled by that set. \<^verbatim>\<open>Client.specErrData\<close> is a \<^verbatim>\<open>sync.Map\<close> from the server name to
  the record: \<^verbatim>\<open>Load\<close> is application, \<^verbatim>\<open>Store\<close> is map update. \<^verbatim>\<open>Has\<close>, \<^verbatim>\<open>Add\<close>,
  \<^verbatim>\<open>Len\<close> and \<^verbatim>\<open>NewSet\<close> of the set are membership, \<open>insert\<close>, \<open>card\<close> and the
  singleton. The functions of the next sections are the code as one caller runs it without
  interference; the calls of overlapping callers are interleaved in the section on
  concurrent callers.
\<close>

type_synonym specErr = "16 word set"

type_synonym specErrData = "string \<rightharpoonup> specErr"

definition NewClient :: specErrData where
  "NewClient = Map.empty"

section \<open>Pruning the handshake parameters: \<^verbatim>\<open>changeSpec\<close>\<close>

text \<open>
  The inner loops of \<^verbatim>\<open>changeSpec\<close>: the surviving entries are appended to a fresh slice,
  and \<^verbatim>\<open>change\<close> is set whenever an entry survives.
\<close>

fun keyShares_loop :: "specErr \<Rightarrow> KeyShare list \<Rightarrow> bool \<times> KeyShare list \<Rightarrow> bool \<times> KeyShare list" where
  "keyShares_loop se [] acc = acc"
| "keyShares_loop se (keyShare # rest) (change, keyShares) =
     (if Group keyShare \<notin> se
      then keyShares_loop se rest (True, keyShares @ [keyShare])
      else keyShares_loop se rest (change, keyShares))"

fun curves_loop :: "specErr \<Rightarrow> CurveID list \<Rightarrow> bool \<times> CurveID list \<Rightarrow> bool \<times> CurveID list" where
  "curves_loop se [] acc = acc"
| "curves_loop se (keyShare # rest) (change, keyShares) =
     (if keyShare \<notin> se
      then curves_loop se rest (True, keyShares @ [keyShare])
      else curves_loop se rest (change, keyShares))"

text \<open>
  The body of the loop over \<^verbatim>\<open>spec.Extensions\<close>, for one extension: the type switch with
  its two cases, each guarded by \<^verbatim>\<open>Len() > 0\<close>. The extension objects are mutated through
  their pointers; the model returns the new object.
\<close>

fun changeSpec_ext :: "specErr \<Rightarrow> bool \<Rightarrow> TLSExtension \<Rightarrow> bool \<times> TLSExtension" where
  "changeSpec_ext se change (KeyShareExtension ks) =
     (if card se > 0
      then (case keyShares_loop se ks (change, []) of
              (change', keyShares) \<Rightarrow> (change', KeyShareExtension keyShares))
      else (change, KeyShareExtension ks))"
| "changeSpec_ext se change (SupportedCurvesExtension cs) =
     (if card se > 0
      then (case curves_loop se cs (change, []) of
              (change', keyShares) \<Rightarrow> (change', SupportedCurvesExtension keyShares))
      else (change, SupportedCurvesExtension cs))"
| "changeSpec_ext se change ext = (change, ext)"

fun changeSpec_exts :: "specErr \<Rightarrow> bool \<Rightarrow> TLSExtension list \<Rightarrow> bool \<times> TLSExtension list" where
  "changeSpec_exts se change [] = (change, [])"
| "changeSpec_exts se change (ext # exts) =
     (case changeSpec_ext se change ext of
        (change', ext') \<Rightarrow>
          (case changeSpec_exts se change' exts of
             (change'', exts') \<Rightarrow> (change'', ext' # exts')))"

definition changeSpec :: "specErrData \<Rightarrow> string \<Rightarrow> ClientHelloSpec \<Rightarrow> bool \<times> ClientHelloSpec" where
  "changeSpec obj key spec =
     (case obj key of
        None \<Rightarrow> (False, spec)
      | Some se \<Rightarrow>
          (case changeSpec_exts se False (Extensions spec) of
             (change, exts) \<Rightarrow> (change, spec\<lparr>Extensions := exts\<rparr>)))"

text \<open>The rejected set of a destination: empty while no record exists.\<close>

definition rejected :: "specErrData \<Rightarrow> string \<Rightarrow> CurveID set" where
  "rejected obj key = (case obj key of None \<Rightarrow> {} | Some se \<Rightarrow> se)"

text \<open>What the claim describes: one extension with the rejected groups filtered out.\<close>

fun prune :: "CurveID set \<Rightarrow> TLSExtension \<Rightarrow> TLSExtension" where
  "prune R (KeyShareExtension ks) = KeyShareExtension (filter (\<lambda>k. Group k \<notin> R) ks)"
| "prune R (SupportedCurvesExtension cs) = SupportedCurvesExtension (filter (\<lambda>c. c \<notin> R) cs)"
| "prune R ext = ext"

text \<open>The template used below to run the operations: curves and key shares 23, 24, 29.\<close>

definition template_23_24_29 :: ClientHelloSpec where
  "template_23_24_29 =
     \<lparr>CipherSuites = [4865, 4866], CompressionMethods = [0],
      Extensions =
        [SupportedCurvesExtension [23, 24, 29],
         ALPNExtension [''h2'', ''http/1.1''],
         KeyShareExtension
           [\<lparr>Group = 23, Data = []\<rparr>, \<lparr>Group = 24, Data = []\<rparr>, \<lparr>Group = 29, Data = []\<rparr>]],
      TLSVersMin = 769, TLSVersMax = 772, GetSessionID = Sha256Sum256\<rparr>"

section \<open>The error registry\<close>

text \<open>
  \<^verbatim>\<open>setSpecErrWithKeyShareExtension\<close>: \<^verbatim>\<open>Load\<close> the record of the key; when it exists, \<^verbatim>\<open>Add\<close>
  the value unless the set \<^verbatim>\<open>Has\<close> it; otherwise \<^verbatim>\<open>Store\<close> a new record holding the value.
  The set is mutated through its pointer, so the map shows the grown set.
\<close>

definition setSpecErrWithKeyShareExtension :: "specErrData \<Rightarrow> string \<Rightarrow> 16 word \<Rightarrow> bool \<times> specErrData" where
  "setSpecErrWithKeyShareExtension obj key v =
     (case obj key of
        Some specErr \<Rightarrow>
          if v \<notin> specErr then (True, obj(key \<mapsto> insert v specErr)) else (False, obj)
      | None \<Rightarrow> (True, obj(key \<mapsto> {v})))"

subsection \<open>Library functions used by the classifier\<close>

text \<open>
  Errors of the package: the two messages of \<^verbatim>\<open>CreateH2SpecWithStr\<close>, the
  \<^verbatim>\<open>*strconv.NumError\<close> of \<^verbatim>\<open>strconv.Atoi\<close> (with the offending text), the errors of
  \<^verbatim>\<open>hex.DecodeString\<close>, the message of \<^verbatim>\<open>CreateSpecWithClientHello\<close>, and errors handed
  through from functions outside the package.
\<close>

datatype error =
    H2SpecFormatError
  | H2SettingError
  | NumError string
  | HexError
  | ClientHelloTypeError
  | ExternalError string

definition isDigit :: "char \<Rightarrow> bool" where
  "isDigit c = (48 \<le> (of_char c :: nat) \<and> (of_char c :: nat) \<le> 57)"

definition digitVal :: "char \<Rightarrow> int" where
  "digitVal c = of_char c - 48"

fun parseDigits :: "int \<Rightarrow> string \<Rightarrow> int option" where
  "parseDigits n [] = Some n"
| "parseDigits n (c # cs) = (if isDigit c then parseDigits (n * 10 + digitVal c) cs else None)"

text \<open>
  \<^verbatim>\<open>strconv.Atoi\<close> for a 64-bit \<^verbatim>\<open>int\<close>: an optional sign, then at least one decimal
  digit and nothing else; the value has to lie in \<open>-2^63 .. 2^63 - 1\<close>.
\<close>

definition Atoi :: "string \<Rightarrow> error + int" where
  "Atoi s =
     (let neg = (take 1 s = ''-'');
          body = (if take 1 s = ''-'' \<or> take 1 s = ''+'' then drop 1 s else s)
      in if body = [] then Inl (NumError s)
         else (case parseDigits 0 body of
                 None \<Rightarrow> Inl (NumError s)
               | Some n \<Rightarrow>
                   if neg then (if n \<le> 2 ^ 63 then Inr (- n) else Inl (NumError s))
                   else (if n < 2 ^ 63 then Inr n else Inl (NumError s))))"

text \<open>
  \<^verbatim>\<open>re.Search\<close> with the pattern
  \<^verbatim>\<open>unsupported Curve in KeyShareExtension: CurveID\((\d+)\)\<close>: the leftmost position where
  the literal text is followed by a non-empty run of decimal digits and a closing
  parenthesis. The result is group 1, the digits. The digits of \<^verbatim>\<open>\d+\<close> are followed by
  \<^verbatim>\<open>)\<close>, so the group is the whole run.
\<close>

definition curvePattern :: string where
  "curvePattern = ''unsupported Curve in KeyShareExtension: CurveID(''"

definition matchHere :: "string \<Rightarrow> string option" where
  "matchHere s =
     (if take (length curvePattern) s = curvePattern
      then (let r = drop (length curvePattern) s; ds = takeWhile isDigit r
            in if ds \<noteq> [] \<and> take 1 (dropWhile isDigit r) = '')'' then Some ds else None)
      else None)"

fun Search :: "string \<Rightarrow> string option" where
  "Search [] = None"
| "Search (c # cs) = (case matchHere (c # cs) of Some g \<Rightarrow> Some g | None \<Rightarrow> Search cs)"

subsection \<open>The classifier\<close>

text \<open>\<^verbatim>\<open>setSpecErrWithError\<close>; \<^verbatim>\<open>uint16(i)\<close> keeps the low 16 bits of the parsed number.\<close>

definition setSpecErrWithError :: "specErrData \<Rightarrow> string \<Rightarrow> string \<Rightarrow> bool \<times> specErrData" where
  "setSpecErrWithError obj key err =
     (case Search err of
        None \<Rightarrow> (False, obj)
      | Some g \<Rightarrow>
          (case Atoi g of
             Inl e \<Rightarrow> (False, obj)
           | Inr i \<Rightarrow>
               (case setSpecErrWithKeyShareExtension obj key (word_of_int i) of
                  (change, obj') \<Rightarrow> if change then (True, obj') else (False, obj'))))"

text \<open>
  The shape the classifier is meant to recognise, stated on the text alone: somewhere in
  the message, the literal text, one or more decimal digits, and a closing parenthesis.
\<close>

definition recognized :: "string \<Rightarrow> bool" where
  "recognized text =
     (\<exists>pre ds post. text = pre @ curvePattern @ ds @ '')'' @ post \<and> ds \<noteq> [] \<and> list_all isDigit ds)"

section \<open>Protocol-mode adjustment: \<^verbatim>\<open>createSpecWithSpec\<close>\<close>

text \<open>
  \<^verbatim>\<open>http3.NextProtoH3\<close> is a constant of another package, the ALPN identifier of HTTP/3.
\<close>

definition NextProtoH3 :: string where
  "NextProtoH3 = ''h3''"

text \<open>\<^verbatim>\<open>slices.Index\<close> (\<open>None\<close> for \<open>-1\<close>), \<^verbatim>\<open>slices.Delete\<close> and \<^verbatim>\<open>slices.Contains\<close>.\<close>

fun Index :: "string list \<Rightarrow> string \<Rightarrow> nat option" where
  "Index [] v = None"
| "Index (x # xs) v = (if x = v then Some 0 else map_option Suc (Index xs v))"

definition Delete :: "string list \<Rightarrow> nat \<Rightarrow> nat \<Rightarrow> string list" where
  "Delete xs i j = take i xs @ drop j xs"

definition Contains :: "string list \<Rightarrow> string \<Rightarrow> bool" where
  "Contains xs v = (Index xs v \<noteq> None)"

text \<open>
  The two loops over \<^verbatim>\<open>utlsSpec.Extensions\<close>: both stop at the first ALPN extension
  (\<^verbatim>\<open>break\<close>) and rewrite its protocol list through the pointer.
\<close>

fun h3_loop :: "TLSExtension list \<Rightarrow> TLSExtension list" where
  "h3_loop [] = []"
| "h3_loop (ALPNExtension AlpnProtocols # rest) = ALPNExtension [NextProtoH3] # rest"
| "h3_loop (Extension # rest) = Extension # h3_loop rest"

definition h1_protocols :: "string list \<Rightarrow> string list" where
  "h1_protocols AlpnProtocols =
     (let ps = (case Index AlpnProtocols ''h2'' of
                  Some i \<Rightarrow> Delete AlpnProtocols i (i + 1)
                | None \<Rightarrow> AlpnProtocols)
      in if \<not> Contains ps ''http/1.1'' then [''http/1.1''] @ ps else ps)"

fun h1_loop :: "TLSExtension list \<Rightarrow> TLSExtension list" where
  "h1_loop [] = []"
| "h1_loop (ALPNExtension AlpnProtocols # rest) = ALPNExtension (h1_protocols AlpnProtocols) # rest"
| "h1_loop (Extension # rest) = Extension # h1_loop rest"

definition createSpecWithSpec :: "ClientHelloSpec \<Rightarrow> bool \<Rightarrow> bool \<Rightarrow> error + ClientHelloSpec" where
  "createSpecWithSpec utlsSpec h2 h3 =
     (if h3 then Inr (utlsSpec\<lparr>Extensions := h3_loop (Extensions utlsSpec)\<rparr>)
      else if \<not> h2 then Inr (utlsSpec\<lparr>Extensions := h1_loop (Extensions utlsSpec)\<rparr>)
      else Inr utlsSpec)"

text \<open>The protocol list of the first ALPN extension of a spec, if it has one.\<close>

fun firstALPN :: "TLSExtension list \<Rightarrow> string list option" where
  "firstALPN [] = None"
| "firstALPN (ALPNExtension ps # rest) = Some ps"
| "firstALPN (ext # rest) = firstALPN rest"

text \<open>The extension list with the protocol list of the first ALPN extension replaced.\<close>

fun setFirstALPN :: "string list \<Rightarrow> TLSExtension list \<Rightarrow> TLSExtension list" where
  "setFirstALPN ps' [] = []"
| "setFirstALPN ps' (ALPNExtension ps # rest) = ALPNExtension ps' # rest"
| "setFirstALPN ps' (ext # rest) = ext # setFirstALPN ps' rest"

section \<open>The retry loop of \<^verbatim>\<open>Client.Client\<close>\<close>

text \<open>
  \<^verbatim>\<open>utlsConn.ApplyPreset\<close> belongs to the TLS engine. It is a parameter here: given the
  number of the attempt and the spec, it answers with \<open>None\<close> for \<^verbatim>\<open>nil\<close> or with the
  text of its error, and with the spec as it leaves it (the engine fills in key material
  through the shared extension pointers). The loop ends either at \<^verbatim>\<open>break\<close>, after which
  the handshake runs, or at one of the two \<^verbatim>\<open>return nil, err\<close>, where the error of
  the engine is returned as it is (\<open>ExternalError\<close> with its text). The result carries the
  registry as the loop leaves it and the number of \<^verbatim>\<open>ApplyPreset\<close> calls made so far.
\<close>

datatype ClientOutcome = Handshake ClientHelloSpec | ReturnErr error

type_synonym engine = "nat \<Rightarrow> ClientHelloSpec \<Rightarrow> string option \<times> ClientHelloSpec"

partial_function (option) Client_loop ::
  "engine \<Rightarrow> string \<Rightarrow> specErrData \<Rightarrow> ClientHelloSpec \<Rightarrow> nat \<Rightarrow> (ClientOutcome \<times> specErrData \<times> nat) option" where
  "Client_loop ApplyPreset serverName obj utlsSpec n =
     (case ApplyPreset n utlsSpec of
        (None, spec1) \<Rightarrow> Some (Handshake spec1, obj, Suc n)
      | (Some err, spec1) \<Rightarrow>
          (case setSpecErrWithError obj serverName err of
             (change, obj') \<Rightarrow>
               if \<not> change then Some (ReturnErr (ExternalError err), obj', Suc n)
               else (case changeSpec obj' serverName spec1 of
                       (change2, spec2) \<Rightarrow>
                         if \<not> change2 then Some (ReturnErr (ExternalError err), obj', Suc n)
                         else Client_loop ApplyPreset serverName obj' spec2 (Suc n))))"

text \<open>
  \<^verbatim>\<open>Client.Client\<close> up to the handshake: the protocol-mode adjustment (with \<^verbatim>\<open>h3 = false\<close>),
  one application of the registry whose result is ignored, then the loop.
\<close>

definition Client :: "engine \<Rightarrow> specErrData \<Rightarrow> ClientHelloSpec \<Rightarrow> bool \<Rightarrow> string \<Rightarrow> (ClientOutcome \<times> specErrData \<times> nat) option" where
  "Client ApplyPreset obj ja3Spec h2 serverName =
     (case createSpecWithSpec ja3Spec h2 False of
        Inl err \<Rightarrow> Some (ReturnErr err, obj, 0)
      | Inr utlsSpec \<Rightarrow>
          Client_loop ApplyPreset serverName obj (snd (changeSpec obj serverName utlsSpec)) 0)"

text \<open>An extension that still has an entry outside the set \<open>R\<close>.\<close>

fun hasSurvivor :: "CurveID set \<Rightarrow> TLSExtension \<Rightarrow> bool" where
  "hasSurvivor R (KeyShareExtension ks) = list_ex (\<lambda>k. Group k \<notin> R) ks"
| "hasSurvivor R (SupportedCurvesExtension cs) = list_ex (\<lambda>c. c \<notin> R) cs"
| "hasSurvivor R ext = False"

text \<open>
  An engine that rejects group 24 as long as a key share offers it, with the message of
  the TLS library, and accepts every other spec.
\<close>

fun offers24 :: "TLSExtension \<Rightarrow> bool" where
  "offers24 (KeyShareExtension ks) = list_ex (\<lambda>k. Group k = 24) ks"
| "offers24 ext = False"

definition engine24 :: engine where
  "engine24 n spec =
     (if list_ex offers24 (Extensions spec)
      then (Some ''unsupported Curve in KeyShareExtension: CurveID(24).To mimic it, fill the Data(key) field manually'', spec)
      else (None, spec))"

text \<open>An engine that fails every attempt with an error of another kind.\<close>

definition engineEOF :: engine where
  "engineEOF n spec = (Some ''EOF'', spec)"

text \<open>The template after pruning group 24, and a template that offers group 24 only.\<close>

definition pruned_23_29 :: ClientHelloSpec where
  "pruned_23_29 =
     \<lparr>CipherSuites = [4865, 4866], CompressionMethods = [0],
      Extensions =
        [SupportedCurvesExtension [23, 29],
         ALPNExtension [''h2'', ''http/1.1''],
         KeyShareExtension [\<lparr>Group = 23, Data = []\<rparr>, \<lparr>Group = 29, Data = []\<rparr>]],
      TLSVersMin = 769, TLSVersMax = 772, GetSessionID = Sha256Sum256\<rparr>"

definition only24 :: ClientHelloSpec where
  "only24 =
     \<lparr>CipherSuites = [4865], CompressionMethods = [0],
      Extensions = [SupportedCurvesExtension [24], KeyShareExtension [\<lparr>Group = 24, Data = []\<rparr>]],
      TLSVersMin = 769, TLSVersMax = 772, GetSessionID = Sha256Sum256\<rparr>"

section \<open>HTTP/2 fingerprint codec\<close>

text \<open>
  \<^verbatim>\<open>Setting\<close>, \<^verbatim>\<open>Priority\<close> and \<^verbatim>\<open>H2Spec\<close> with their field widths; \<^verbatim>\<open>Http2SettingID\<close> is
  a \<^verbatim>\<open>uint16\<close>. The field \<^verbatim>\<open>Id\<close> is written \<open>Id'\<close>.
\<close>

record Setting =
  Id' :: "16 word"
  Val :: "32 word"

record Priority =
  StreamDep :: "32 word"
  Exclusive :: bool
  Weight :: "8 word"

record H2Spec =
  InitialSetting :: "Setting list"
  ConnFlow :: "32 word"
  OrderHeaders :: "string list"
  Priority :: Priority

text \<open>\<^verbatim>\<open>strings.Split\<close> with a separator of one byte, and \<^verbatim>\<open>strings.Join\<close>.\<close>

fun Split :: "string \<Rightarrow> char \<Rightarrow> string list" where
  "Split [] sep = [[]]"
| "Split (c # cs) sep =
     (if c = sep then [] # Split cs sep
      else (case Split cs sep of
              [] \<Rightarrow> [[c]]
            | t # ts \<Rightarrow> (c # t) # ts))"

fun Join :: "string list \<Rightarrow> string \<Rightarrow> string" where
  "Join [] sep = []"
| "Join [x] sep = x"
| "Join (x # y # ys) sep = x @ sep @ Join (y # ys) sep"

text \<open>\<^verbatim>\<open>%d\<close> and \<^verbatim>\<open>fmt.Sprint\<close> of an unsigned integer: its decimal digits.\<close>

fun formatUint :: "nat \<Rightarrow> string" where
  "formatUint n =
     (if n < 10 then [''0123456789'' ! n]
      else formatUint (n div 10) @ [''0123456789'' ! (n mod 10)])"

text \<open>
  \<^verbatim>\<open>strings.ToLower\<close> lower-cases by the Unicode case tables of the standard library
  (U+0130 becomes \<^verbatim>\<open>i\<close>, for one). The tables are not part of the package, so the encoder
  takes the function as its parameter \<open>ToLower\<close>. What the round trip needs of it is that it
  leaves the four lower-case pseudo-header names as they are, which \<^verbatim>\<open>strings.ToLower\<close>
  does.
\<close>

definition keepsPseudoHeaders :: "(string \<Rightarrow> string) \<Rightarrow> bool" where
  "keepsPseudoHeaders ToLower =
     (ToLower '':method'' = '':method'' \<and> ToLower '':authority'' = '':authority''
      \<and> ToLower '':scheme'' = '':scheme'' \<and> ToLower '':path'' = '':path'')"

text \<open>
  A function to run the encoder with on ASCII header names: it maps the letters A to Z as
  \<^verbatim>\<open>strings.ToLower\<close> does and leaves every other byte, so it agrees with
  \<^verbatim>\<open>strings.ToLower\<close> on ASCII text and only there.
\<close>

definition lowerASCIIChar :: "char \<Rightarrow> char" where
  "lowerASCIIChar c =
     (case map_of (zip ''ABCDEFGHIJKLMNOPQRSTUVWXYZ'' ''abcdefghijklmnopqrstuvwxyz'') c of
        Some l \<Rightarrow> l
      | None \<Rightarrow> c)"

definition lowerASCII :: "string \<Rightarrow> string" where
  "lowerASCII s = map lowerASCIIChar s"

text \<open>
  \<^verbatim>\<open>H2Spec.Fp\<close>: the two loops that collect the formatted settings and the letters of the
  pseudo-headers, and the four fields joined with \<^verbatim>\<open>|\<close>. The first argument stands for
  \<^verbatim>\<open>strings.ToLower\<close>.
\<close>

fun settings_strings :: "Setting list \<Rightarrow> string list \<Rightarrow> string list" where
  "settings_strings [] settings = settings"
| "settings_strings (setting # rest) settings =
     settings_strings rest
       (settings @ [formatUint (unat (Id' setting)) @ '':'' @ formatUint (unat (Val setting))])"

fun heads_letters :: "(string \<Rightarrow> string) \<Rightarrow> string list \<Rightarrow> string list \<Rightarrow> string list" where
  "heads_letters ToLower [] heads = heads"
| "heads_letters ToLower (head # rest) heads =
     (let head = ToLower head
      in if head = '':method'' then heads_letters ToLower rest (heads @ [''m''])
         else if head = '':authority'' then heads_letters ToLower rest (heads @ [''a''])
         else if head = '':scheme'' then heads_letters ToLower rest (heads @ [''s''])
         else if head = '':path'' then heads_letters ToLower rest (heads @ [''p''])
         else heads_letters ToLower rest heads)"

definition Fp :: "(string \<Rightarrow> string) \<Rightarrow> H2Spec \<Rightarrow> string" where
  "Fp ToLower obj =
     Join [Join (settings_strings (InitialSetting obj) []) '','',
           formatUint (unat (ConnFlow obj)),
           ''0'',
           Join (heads_letters ToLower (OrderHeaders obj) []) '',''] ''|''"

text \<open>
  \<^verbatim>\<open>CreateH2SpecWithStr\<close>: the loop over the settings tokens, the loop over the header
  letters, and the function. An error return is \<open>Inl\<close>; the partly filled spec that the Go
  function returns beside the error is left out. \<^verbatim>\<open>Http2SettingID(ttKey)\<close>,
  \<^verbatim>\<open>uint32(ttVal)\<close> and \<^verbatim>\<open>uint32(connFlow)\<close> keep the low bits. \<^verbatim>\<open>Priority\<close> is not assigned
  and keeps its zero value.
\<close>

fun settings_loop :: "string list \<Rightarrow> Setting list \<Rightarrow> error + Setting list" where
  "settings_loop [] initialSetting = Inr initialSetting"
| "settings_loop (setting # rest) initialSetting =
     (let tts = Split setting CHR '':''
      in if length tts \<noteq> 2 then Inl H2SettingError
         else (case Atoi (tts ! 0) of
                 Inl err \<Rightarrow> Inl err
               | Inr ttKey \<Rightarrow>
                   (case Atoi (tts ! 1) of
                      Inl err \<Rightarrow> Inl err
                    | Inr ttVal \<Rightarrow>
                        settings_loop rest
                          (initialSetting @ [\<lparr>Id' = word_of_int ttKey, Val = word_of_int ttVal\<rparr>]))))"

fun headers_loop :: "string list \<Rightarrow> string list \<Rightarrow> string list" where
  "headers_loop [] orderHeaders = orderHeaders"
| "headers_loop (hkey # rest) orderHeaders =
     (if hkey = ''m'' then headers_loop rest (orderHeaders @ ['':method''])
      else if hkey = ''a'' then headers_loop rest (orderHeaders @ ['':authority''])
      else if hkey = ''s'' then headers_loop rest (orderHeaders @ ['':scheme''])
      else if hkey = ''p'' then headers_loop rest (orderHeaders @ ['':path''])
      else headers_loop rest orderHeaders)"

definition CreateH2SpecWithStr :: "string \<Rightarrow> error + H2Spec" where
  "CreateH2SpecWithStr h2ja3SpecStr =
     (let tokens = Split h2ja3SpecStr CHR ''|''
      in if length tokens \<noteq> 4 then Inl H2SpecFormatError
         else (case settings_loop (Split (tokens ! 0) CHR '','') [] of
                 Inl err \<Rightarrow> Inl err
               | Inr settings \<Rightarrow>
                   (case Atoi (tokens ! 1) of
                      Inl err \<Rightarrow> Inl err
                    | Inr connFlow \<Rightarrow>
                        Inr \<lparr>InitialSetting = settings,
                             ConnFlow = word_of_int connFlow,
                             OrderHeaders = headers_loop (Split (tokens ! 3) CHR '','') [],
                             Priority = \<lparr>StreamDep = 0, Exclusive = False, Weight = 0\<rparr>\<rparr>)))"

text \<open>
  The words of the decoder's description, on the text alone. A numeric component is an
  optional sign followed by one or more decimal digits; its value is read in base ten.
\<close>

definition numeric :: "string \<Rightarrow> bool" where
  "numeric s =
     (let body = (if take 1 s = ''-'' \<or> take 1 s = ''+'' then drop 1 s else s)
      in body \<noteq> [] \<and> list_all isDigit body)"

definition decimalValue :: "string \<Rightarrow> int" where
  "decimalValue s =
     (let body = (if take 1 s = ''-'' \<or> take 1 s = ''+'' then drop 1 s else s);
          n = foldl (\<lambda>a c. a * 10 + digitVal c) 0 body
      in if take 1 s = ''-'' then - n else n)"

definition inIntRange :: "string \<Rightarrow> bool" where
  "inIntRange s = (numeric s \<and> - (2 ^ 63) \<le> decimalValue s \<and> decimalValue s < 2 ^ 63)"

definition settingOK :: "string \<Rightarrow> bool" where
  "settingOK t =
     (length (Split t CHR '':'') = 2
      \<and> inIntRange (Split t CHR '':'' ! 0) \<and> inIntRange (Split t CHR '':'' ! 1))"

definition parseSetting :: "string \<Rightarrow> Setting" where
  "parseSetting t =
     \<lparr>Id' = word_of_int (decimalValue (Split t CHR '':'' ! 0)),
      Val = word_of_int (decimalValue (Split t CHR '':'' ! 1))\<rparr>"

definition letterHeader :: "string \<Rightarrow> string list" where
  "letterHeader hkey =
     (if hkey = ''m'' then ['':method'']
      else if hkey = ''a'' then ['':authority'']
      else if hkey = ''s'' then ['':scheme'']
      else if hkey = ''p'' then ['':path'']
      else [])"

text \<open>
  What the encoding represents of a header list: the lower-cased names among the four
  pseudo-headers, in order. One formatted setting, and the letter of one lower-cased name.
\<close>

definition pseudoHeaders :: "(string \<Rightarrow> string) \<Rightarrow> string list \<Rightarrow> string list" where
  "pseudoHeaders ToLower hs =
     filter (\<lambda>h. h = '':method'' \<or> h = '':authority'' \<or> h = '':scheme'' \<or> h = '':path'')
       (map ToLower hs)"

definition formatSetting :: "Setting \<Rightarrow> string" where
  "formatSetting setting = formatUint (unat (Id' setting)) @ '':'' @ formatUint (unat (Val setting))"

definition headLetter :: "string \<Rightarrow> string list" where
  "headLetter head =
     (if head = '':method'' then [''m'']
      else if head = '':authority'' then [''a'']
      else if head = '':scheme'' then [''s'']
      else if head = '':path'' then [''p'']
      else [])"

text \<open>The fingerprint text of the documentation, and the value it stands for.\<close>

definition example_fp :: string where
  "example_fp = ''1:65536,2:0,4:6291456,6:262144|15663105|0|m,a,s,p''"

definition example_spec :: H2Spec where
  "example_spec =
     \<lparr>InitialSetting =
        [\<lparr>Id' = 1, Val = 65536\<rparr>, \<lparr>Id' = 2, Val = 0\<rparr>, \<lparr>Id' = 4, Val = 6291456\<rparr>, \<lparr>Id' = 6, Val = 262144\<rparr>],
      ConnFlow = 15663105,
      OrderHeaders = ['':method'', '':authority'', '':scheme'', '':path''],
      Priority = \<lparr>StreamDep = 0, Exclusive = False, Weight = 0\<rparr>\<rparr>"

text \<open>A spec with mixed-case header names, a header outside the four, and a set priority.\<close>

definition mixed_spec :: H2Spec where
  "mixed_spec =
     \<lparr>InitialSetting = [\<lparr>Id' = 1, Val = 65536\<rparr>, \<lparr>Id' = 4, Val = 4294967295\<rparr>],
      ConnFlow = 15663105,
      OrderHeaders = ['':Method'', ''Host'', '':path'', '':AUTHORITY''],
      Priority = \<lparr>StreamDep = 5, Exclusive = True, Weight = 255\<rparr>\<rparr>"

section \<open>The spec builder: \<^verbatim>\<open>CreateSpecWithClientHello\<close>\<close>

text \<open>
  The argument has the type \<^verbatim>\<open>any\<close>; the type switch separates a byte slice, a
  \<^verbatim>\<open>utls.ClientHelloID\<close> (client name and version), a string, and every other dynamic
  type.
\<close>

datatype ClientHelloID = ClientHelloID string string

datatype clienthello =
    BytesValue "8 word list"
  | IDValue ClientHelloID
  | StringValue string
  | OtherValue nat

text \<open>
  The parsed capture \<^verbatim>\<open>ClientHello\<close> is declared in a file of the package that is not at
  hand, like its parser \<^verbatim>\<open>decodeClientHello\<close> and the method \<^verbatim>\<open>utlsExt\<close> of its
  extensions. The builder reads three fields of it; the extension values are left as a
  type parameter, and the parser and the method are parameters of the builder, as is
  \<^verbatim>\<open>utls.UTLSIdToSpec\<close> of the TLS library.
\<close>

datatype 'e ClientHello =
  ClientHello (chCipherSuites: "16 word list") (chCompressionMethods: "8 word list") (chExtensions: "'e list")

text \<open>\<^verbatim>\<open>hex.DecodeString\<close>: pairs of hexadecimal digits of either case, an even number of them.\<close>

definition fromHexChar :: "char \<Rightarrow> nat option" where
  "fromHexChar c =
     (let n = (of_char c :: nat)
      in if 48 \<le> n \<and> n \<le> 57 then Some (n - 48)
         else if 97 \<le> n \<and> n \<le> 102 then Some (n - 97 + 10)
         else if 65 \<le> n \<and> n \<le> 70 then Some (n - 65 + 10)
         else None)"

fun DecodeString :: "string \<Rightarrow> error + 8 word list" where
  "DecodeString [] = Inr []"
| "DecodeString [c] = Inl HexError"
| "DecodeString (a # b # rest) =
     (case fromHexChar a of
        None \<Rightarrow> Inl HexError
      | Some hi \<Rightarrow>
          (case fromHexChar b of
             None \<Rightarrow> Inl HexError
           | Some lo \<Rightarrow>
               (case DecodeString rest of
                  Inl err \<Rightarrow> Inl err
                | Inr bytes \<Rightarrow> Inr (of_nat (hi * 16 + lo) # bytes))))"

text \<open>
  The tail of the function, reached with a decoded capture. The fields of the result that
  are not assigned keep their zero values.
\<close>

definition specOfClientHello :: "('e \<Rightarrow> TLSExtension) \<Rightarrow> 'e ClientHello \<Rightarrow> ClientHelloSpec" where
  "specOfClientHello utlsExt clientHelloInfo =
     \<lparr>CipherSuites = chCipherSuites clientHelloInfo,
      CompressionMethods = chCompressionMethods clientHelloInfo,
      Extensions = map utlsExt (chExtensions clientHelloInfo),
      TLSVersMin = 0, TLSVersMax = 0,
      GetSessionID = Sha256Sum256\<rparr>"

definition CreateSpecWithClientHello ::
  "(8 word list \<Rightarrow> error + 'e ClientHello) \<Rightarrow> ('e \<Rightarrow> TLSExtension) \<Rightarrow> (ClientHelloID \<Rightarrow> error + ClientHelloSpec)
     \<Rightarrow> clienthello \<Rightarrow> error + ClientHelloSpec" where
  "CreateSpecWithClientHello decodeClientHello utlsExt UTLSIdToSpec clienthello =
     (case clienthello of
        BytesValue v \<Rightarrow>
          (case decodeClientHello v of
             Inl err \<Rightarrow> Inl err
           | Inr clientHelloInfo \<Rightarrow> Inr (specOfClientHello utlsExt clientHelloInfo))
      | IDValue v \<Rightarrow> UTLSIdToSpec v
      | StringValue v \<Rightarrow>
          (case DecodeString v of
             Inl err \<Rightarrow> Inl err
           | Inr bytes \<Rightarrow>
               (case decodeClientHello bytes of
                  Inl err \<Rightarrow> Inl err
                | Inr clientHelloInfo \<Rightarrow> Inr (specOfClientHello utlsExt clientHelloInfo)))
      | OtherValue t \<Rightarrow> Inl ClientHelloTypeError)"

text \<open>
  Stand-ins for the three parameters, to run the builder: a parser that accepts every
  capture and finds one cipher suite and no extension, and a preset table whose entries
  leave \<^verbatim>\<open>GetSessionID\<close> unset.
\<close>

definition decodeAny :: "8 word list \<Rightarrow> error + nat ClientHello" where
  "decodeAny bytes = Inr (ClientHello [4865] [0] [])"

definition extOpaque :: "nat \<Rightarrow> TLSExtension" where
  "extOpaque n = OtherExtension n []"

definition presetsNilFunc :: "ClientHelloID \<Rightarrow> error + ClientHelloSpec" where
  "presetsNilFunc v =
     Inr \<lparr>CipherSuites = [4865], CompressionMethods = [0], Extensions = [],
          TLSVersMin = 769, TLSVersMax = 772, GetSessionID = NilFunc\<rparr>"

section \<open>Concurrent callers of the registry\<close>

text \<open>
  The registry is shared by all attempts. \<^verbatim>\<open>setSpecErrWithKeyShareExtension\<close> makes up to
  three calls on it: \<^verbatim>\<open>Load\<close>, then either \<^verbatim>\<open>Has\<close> and \<^verbatim>\<open>Add\<close> on the loaded record or
  \<^verbatim>\<open>Store\<close> of a new one. Each of these calls is taken as one atomic step, and calls of
  different callers interleave. The \<^verbatim>\<open>sync.Map\<close> holds pointers: \<open>entries\<close> maps a key to
  the address of its record, \<open>records\<close> gives the set at an address, and \<open>created\<close> counts
  the records made so far (the next free address).
\<close>

record registry =
  entries :: "string \<rightharpoonup> nat"
  records :: "nat \<Rightarrow> specErr"
  created :: nat

text \<open>
  Where a caller stands: before \<^verbatim>\<open>Load\<close>; after a \<^verbatim>\<open>Load\<close> that found the record at an
  address, before \<^verbatim>\<open>Has\<close>; after \<^verbatim>\<open>Has\<close> said no, before \<^verbatim>\<open>Add\<close>; after a \<^verbatim>\<open>Load\<close>
  that found nothing, before \<^verbatim>\<open>Store\<close>; returned, with the value of \<^verbatim>\<open>change\<close>.
\<close>

datatype position = BeforeLoad | BeforeHas nat | BeforeAdd nat | BeforeStore | Returned bool

record caller =
  callKey :: string
  callValue :: "16 word"
  at :: position

definition newRegistry :: registry where
  "newRegistry = \<lparr>entries = Map.empty, records = (\<lambda>a. {}), created = 0\<rparr>"

definition call :: "string \<Rightarrow> 16 word \<Rightarrow> caller" where
  "call key v = \<lparr>callKey = key, callValue = v, at = BeforeLoad\<rparr>"

text \<open>One step of one caller: the next call of the function body on the shared registry.\<close>

fun step :: "registry \<Rightarrow> caller \<Rightarrow> registry \<times> caller" where
  "step r c =
     (case at c of
        BeforeLoad \<Rightarrow>
          (case entries r (callKey c) of
             Some a \<Rightarrow> (r, c\<lparr>at := BeforeHas a\<rparr>)
           | None \<Rightarrow> (r, c\<lparr>at := BeforeStore\<rparr>))
      | BeforeHas a \<Rightarrow>
          (if callValue c \<notin> records r a then (r, c\<lparr>at := BeforeAdd a\<rparr>)
           else (r, c\<lparr>at := Returned False\<rparr>))
      | BeforeAdd a \<Rightarrow>
          (r\<lparr>records := (records r)(a := insert (callValue c) (records r a))\<rparr>,
           c\<lparr>at := Returned True\<rparr>)
      | BeforeStore \<Rightarrow>
          (r\<lparr>entries := (entries r)(callKey c \<mapsto> created r),
             records := (records r)(created r := {callValue c}),
             created := Suc (created r)\<rparr>,
           c\<lparr>at := Returned True\<rparr>)
      | Returned change \<Rightarrow> (r, c))"

text \<open>
  A schedule names, step by step, the caller that moves next; numbers beyond the list of
  callers are skipped.
\<close>

fun run :: "nat list \<Rightarrow> registry \<Rightarrow> caller list \<Rightarrow> registry \<times> caller list" where
  "run [] r cs = (r, cs)"
| "run (i # schedule) r cs =
     (if i < length cs
      then (case step r (cs ! i) of (r', c') \<Rightarrow> run schedule r' (cs[i := c']))
      else run schedule r cs)"

text \<open>The rejected set a reader of the registry sees for a key.\<close>

definition memory :: "registry \<Rightarrow> string \<Rightarrow> CurveID set" where
  "memory r key = (case entries r key of None \<Rightarrow> {} | Some a \<Rightarrow> records r a)"

definition view :: "registry \<Rightarrow> specErrData" where
  "view r = (\<lambda>key. map_option (records r) (entries r key))"

text \<open>
  What holds of the registry and of one caller while all callers report the same group
  \<open>G\<close> for the same key \<open>D\<close>: a record found under \<open>D\<close> holds exactly \<open>G\<close>, and no caller
  stands before \<^verbatim>\<open>Add\<close>.
\<close>

definition okRegistry :: "string \<Rightarrow> 16 word \<Rightarrow> registry \<Rightarrow> bool" where
  "okRegistry D G r = (\<forall>a. entries r D = Some a \<longrightarrow> records r a = {G})"

definition okCaller :: "string \<Rightarrow> 16 word \<Rightarrow> registry \<Rightarrow> caller \<Rightarrow> bool" where
  "okCaller D G r c =
     (callKey c = D \<and> callValue c = G \<and>
      (case at c of
         BeforeLoad \<Rightarrow> True
       | BeforeHas a \<Rightarrow> records r a = {G} \<and> entries r D \<noteq> None
       | BeforeAdd a \<Rightarrow> False
       | BeforeStore \<Rightarrow> True
       | Returned change \<Rightarrow> entries r D \<noteq> None))"

definition returned :: "caller \<Rightarrow> bool" where
  "returned c = (case at c of Returned change \<Rightarrow> True | _ \<Rightarrow> False)"

section \<open>Properties of \<^verbatim>\<open>changeSpec\<close>\<close>

lemma keyShares_loop_eq:
  "keyShares_loop se ks (change, acc) =
     (change \<or> filter (\<lambda>k. Group k \<notin> se) ks \<noteq> [], acc @ filter (\<lambda>k. Group k \<notin> se) ks)"
  by (induction ks arbitrary: change acc) auto

lemma curves_loop_eq:
  "curves_loop se cs (change, acc) =
     (change \<or> filter (\<lambda>c. c \<notin> se) cs \<noteq> [], acc @ filter (\<lambda>c. c \<notin> se) cs)"
  by (induction cs arbitrary: change acc) auto

lemma card_specErr_pos: "(card (se :: specErr) > 0) = (se \<noteq> {})"
  by (simp add: card_gt_0_iff)

lemma changeSpec_ext_snd: "snd (changeSpec_ext se change ext) = prune se ext"
  by (cases ext) (auto simp: keyShares_loop_eq curves_loop_eq card_specErr_pos)

lemma changeSpec_exts_snd: "snd (changeSpec_exts se change exts) = map (prune se) exts"
proof (induction exts arbitrary: change)
  case Nil
  show ?case by simp
next
  case (Cons ext exts)
  obtain c1 e1 where step: "changeSpec_ext se change ext = (c1, e1)"
    by (cases "changeSpec_ext se change ext")
  obtain c2 es where rest: "changeSpec_exts se c1 exts = (c2, es)"
    by (cases "changeSpec_exts se c1 exts")
  have "e1 = prune se ext"
    using changeSpec_ext_snd [of se change ext] step by simp
  moreover have "es = map (prune se) exts"
    using Cons.IH [of c1] rest by simp
  ultimately show ?case
    using step rest by simp
qed

lemma changeSpec_snd:
  "snd (changeSpec obj key spec) = spec\<lparr>Extensions := map (prune (rejected obj key)) (Extensions spec)\<rparr>"
proof (cases "obj key")
  case None
  have "map (prune {}) exts = exts" for exts
  proof (induction exts)
    case (Cons e es)
    then show ?case by (cases e) simp_all
  qed simp
  with None show ?thesis by (simp add: changeSpec_def rejected_def)
next
  case (Some se)
  have "snd (changeSpec_exts se False (Extensions spec)) = map (prune se) (Extensions spec)"
    by (rule changeSpec_exts_snd)
  with Some show ?thesis
    by (auto simp: changeSpec_def rejected_def split: prod.splits)
qed

text \<open>
  Claim C1. Applying the error memory of a destination to a \<^verbatim>\<open>ClientHelloSpec\<close> removes
  from every key-share extension and every supported-curves extension exactly the entries
  whose group id is in the rejected set of the destination, keeps the surviving entries in
  their order, and leaves every other extension, the cipher suites, the compression methods
  and the remaining fields as they were.
\<close>

theorem changeSpec_prunes_exactly:
  "Extensions (snd (changeSpec obj key spec)) = map (prune (rejected obj key)) (Extensions spec)
   \<and> CipherSuites (snd (changeSpec obj key spec)) = CipherSuites spec
   \<and> CompressionMethods (snd (changeSpec obj key spec)) = CompressionMethods spec
   \<and> TLSVersMin (snd (changeSpec obj key spec)) = TLSVersMin spec
   \<and> TLSVersMax (snd (changeSpec obj key spec)) = TLSVersMax spec
   \<and> GetSessionID (snd (changeSpec obj key spec)) = GetSessionID spec"
  by (simp add: changeSpec_snd)

text \<open>
  The instance named in the claim: key-share groups 23, 24, 29 and supported curves
  23, 24, 29, with group 24 recorded for \<open>example.com\<close>, become 23, 29 in both lists; the
  ALPN extension and the other fields stay.
\<close>

theorem changeSpec_prunes_exactly_witness:
  "Extensions (snd (changeSpec (NewClient(''example.com'' \<mapsto> {24})) ''example.com'' template_23_24_29)) =
     [SupportedCurvesExtension [23, 29],
      ALPNExtension [''h2'', ''http/1.1''],
      KeyShareExtension [\<lparr>Group = 23, Data = []\<rparr>, \<lparr>Group = 29, Data = []\<rparr>]]
   \<and> CipherSuites (snd (changeSpec (NewClient(''example.com'' \<mapsto> {24})) ''example.com'' template_23_24_29)) = [4865, 4866]
   \<and> CompressionMethods (snd (changeSpec (NewClient(''example.com'' \<mapsto> {24})) ''example.com'' template_23_24_29)) = [0]"
  using changeSpec_prunes_exactly [of "NewClient(''example.com'' \<mapsto> {24})" "''example.com''" template_23_24_29]
  by (simp add: rejected_def NewClient_def template_23_24_29_def)

section \<open>Properties of the registry\<close>

lemma set_rejected:
  "rejected (snd (setSpecErrWithKeyShareExtension obj key v)) k =
     (if k = key then insert v (rejected obj key) else rejected obj k)"
  by (auto simp: setSpecErrWithKeyShareExtension_def rejected_def split: option.splits)

lemma set_fst:
  "fst (setSpecErrWithKeyShareExtension obj key v) = (obj key = None \<or> v \<notin> rejected obj key)"
  by (auto simp: setSpecErrWithKeyShareExtension_def rejected_def split: option.splits)

lemma set_key:
  "snd (setSpecErrWithKeyShareExtension obj key v) key = Some (insert v (rejected obj key))"
  by (auto simp: setSpecErrWithKeyShareExtension_def rejected_def split: option.splits)

lemma set_twice:
  "setSpecErrWithKeyShareExtension (snd (setSpecErrWithKeyShareExtension obj key v)) key v
     = (False, snd (setSpecErrWithKeyShareExtension obj key v))"
  by (auto simp: setSpecErrWithKeyShareExtension_def split: option.splits)

lemma err_cases:
  "setSpecErrWithError obj key err = (False, obj) \<or>
   (\<exists>g i. Search err = Some g \<and> Atoi g = Inr i \<and>
      setSpecErrWithError obj key err = setSpecErrWithKeyShareExtension obj key (word_of_int i))"
  by (auto simp: setSpecErrWithError_def split: option.splits sum.splits prod.splits)

lemma err_rejected_mono:
  "rejected obj k \<subseteq> rejected (snd (setSpecErrWithError obj key err)) k"
  using err_cases [of obj key err] by (auto simp: set_rejected)

lemma card_specErr_le: "card (S :: specErr) \<le> 2 ^ 16"
proof -
  have "card S \<le> card (UNIV :: 16 word set)"
    by (rule card_mono) simp_all
  then show ?thesis by (simp add: card_word)
qed

lemma err_True_grows:
  assumes "fst (setSpecErrWithError obj key err)"
  shows "\<exists>v. v \<notin> rejected obj key \<and>
           rejected (snd (setSpecErrWithError obj key err)) key = insert v (rejected obj key)"
proof -
  from assms err_cases [of obj key err]
  obtain g i where eq: "setSpecErrWithError obj key err = setSpecErrWithKeyShareExtension obj key (word_of_int i)"
    by auto
  with assms have "obj key = None \<or> word_of_int i \<notin> rejected obj key"
    by (simp add: set_fst)
  then have "(word_of_int i :: 16 word) \<notin> rejected obj key"
    by (auto simp: rejected_def)
  then show ?thesis
    using eq by (auto simp: set_rejected)
qed

lemma err_True_card:
  assumes "fst (setSpecErrWithError obj key err)"
  shows "card (rejected (snd (setSpecErrWithError obj key err)) key) = Suc (card (rejected obj key))"
proof -
  from err_True_grows [OF assms] obtain v where
    "v \<notin> rejected obj key"
    "rejected (snd (setSpecErrWithError obj key err)) key = insert v (rejected obj key)"
    by blast
  then show ?thesis by simp
qed

lemma err_card_mono:
  "card (rejected obj key) \<le> card (rejected (snd (setSpecErrWithError obj key err)) key)"
  by (rule card_mono) (simp_all add: err_rejected_mono)

section \<open>The registry and the retry loop\<close>

text \<open>
  The loop returns from every state: each pass that goes round again has added a group
  to the set of the server name, and a set of 16-bit values has at most \<open>2^16\<close> elements.
  The number of passes after the first is bounded by the growth of that set.
\<close>

lemma Client_loop_terminates:
  "\<exists>out obj' n'. Client_loop ApplyPreset key obj spec n = Some (out, obj', n')
      \<and> n < n'
      \<and> (n' - Suc n) + card (rejected obj key) \<le> card (rejected obj' key)
      \<and> card (rejected obj' key) \<le> 2 ^ 16
      \<and> (\<forall>k. rejected obj k \<subseteq> rejected obj' k)"
proof (induction "2 ^ 16 - card (rejected obj key)" arbitrary: obj spec n rule: less_induct)
  case less
  obtain eo spec1 where eng: "ApplyPreset n spec = (eo, spec1)"
    by (cases "ApplyPreset n spec")
  show ?case
  proof (cases eo)
    case None
    with eng have "Client_loop ApplyPreset key obj spec n = Some (Handshake spec1, obj, Suc n)"
      by (subst Client_loop.simps) simp
    then show ?thesis
      using card_specErr_le [of "rejected obj key"] by simp
  next
    case (Some err)
    obtain change obj' where cls: "setSpecErrWithError obj key err = (change, obj')"
      by (cases "setSpecErrWithError obj key err")
    have mono: "card (rejected obj key) \<le> card (rejected obj' key)"
      using err_card_mono [of obj key err] cls by simp
    have sub: "rejected obj k \<subseteq> rejected obj' k" for k
      using err_rejected_mono [of obj k key err] cls by simp
    obtain change2 spec2 where chg: "changeSpec obj' key spec1 = (change2, spec2)"
      by (cases "changeSpec obj' key spec1")
    show ?thesis
    proof (cases "change \<and> change2")
      case False
      with eng Some cls chg
      have "Client_loop ApplyPreset key obj spec n = Some (ReturnErr (ExternalError err), obj', Suc n)"
        by (subst Client_loop.simps) auto
      with mono sub show ?thesis
        using card_specErr_le [of "rejected obj' key"] by simp
    next
      case True
      with eng Some cls chg
      have unfold: "Client_loop ApplyPreset key obj spec n = Client_loop ApplyPreset key obj' spec2 (Suc n)"
        by (subst Client_loop.simps) simp
      have grow: "card (rejected obj' key) = Suc (card (rejected obj key))"
        using err_True_card [of obj key err] cls True by simp
      have "card (rejected obj' key) \<le> 2 ^ 16"
        by (rule card_specErr_le)
      with grow have "2 ^ 16 - card (rejected obj' key) < 2 ^ 16 - card (rejected obj key)"
        by simp
      from less [OF this, of spec2 "Suc n"] obtain out obj'' n' where
        res: "Client_loop ApplyPreset key obj' spec2 (Suc n) = Some (out, obj'', n')"
        and lt: "Suc n < n'"
        and bound: "(n' - Suc (Suc n)) + card (rejected obj' key) \<le> card (rejected obj'' key)"
        and top: "card (rejected obj'' key) \<le> 2 ^ 16"
        and sub2: "\<forall>k. rejected obj' k \<subseteq> rejected obj'' k"
        by blast
      from sub sub2 have "\<forall>k. rejected obj k \<subseteq> rejected obj'' k"
        by blast
      from lt bound grow have "(n' - Suc n) + card (rejected obj key) \<le> card (rejected obj'' key)"
        by simp
      with unfold res lt top \<open>\<forall>k. rejected obj k \<subseteq> rejected obj'' k\<close> show ?thesis by simp
    qed
  qed
qed

lemma createSpecWithSpec_Inr: "\<exists>utlsSpec. createSpecWithSpec ja3Spec h2 h3 = Inr utlsSpec"
  by (simp add: createSpecWithSpec_def)

lemma Client_mono:
  assumes "Client ApplyPreset obj ja3Spec h2 serverName = Some (out, obj', n)"
  shows "rejected obj k \<subseteq> rejected obj' k"
proof -
  obtain utlsSpec where c: "createSpecWithSpec ja3Spec h2 False = Inr utlsSpec"
    using createSpecWithSpec_Inr by blast
  from Client_loop_terminates [of ApplyPreset serverName obj "snd (changeSpec obj serverName utlsSpec)" 0]
  obtain out1 obj1 n1 where
    "Client_loop ApplyPreset serverName obj (snd (changeSpec obj serverName utlsSpec)) 0 = Some (out1, obj1, n1)"
    "\<forall>k. rejected obj k \<subseteq> rejected obj1 k"
    by blast
  with assms c show ?thesis by (simp add: Client_def)
qed

section \<open>Properties of the classifier\<close>

text \<open>
  The search finds a match exactly when the text contains the shape: \<open>Search_recognized\<close>.
\<close>

lemma not_isDigit_paren: "\<not> isDigit CHR '')''"
  by (simp add: isDigit_def)

lemma matchHere_Some_iff:
  "matchHere s = Some ds \<longleftrightarrow>
     (\<exists>post. s = curvePattern @ ds @ '')'' @ post \<and> ds \<noteq> [] \<and> list_all isDigit ds)"
proof
  assume m: "matchHere s = Some ds"
  let ?r = "drop (length curvePattern) s"
  from m have pre: "take (length curvePattern) s = curvePattern"
    by (auto simp: matchHere_def split: if_splits)
  from m pre have ds: "ds = takeWhile isDigit ?r" and ne: "ds \<noteq> []"
    and close: "take 1 (dropWhile isDigit ?r) = '')''"
    by (auto simp: matchHere_def Let_def split: if_splits)
  from close obtain post where post: "dropWhile isDigit ?r = '')'' @ post"
    by (cases "dropWhile isDigit ?r") auto
  have "s = take (length curvePattern) s @ ?r" by simp
  also have "?r = takeWhile isDigit ?r @ dropWhile isDigit ?r" by simp
  finally have "s = curvePattern @ ds @ '')'' @ post"
    using pre ds post by simp
  moreover have "list_all isDigit ds"
    unfolding ds list_all_iff by (auto dest: set_takeWhileD)
  ultimately show "\<exists>post. s = curvePattern @ ds @ '')'' @ post \<and> ds \<noteq> [] \<and> list_all isDigit ds"
    using ne by blast
next
  assume "\<exists>post. s = curvePattern @ ds @ '')'' @ post \<and> ds \<noteq> [] \<and> list_all isDigit ds"
  then obtain post where s: "s = curvePattern @ ds @ '')'' @ post" and ne: "ds \<noteq> []"
    and dig: "list_all isDigit ds"
    by blast
  from dig have all: "\<And>x. x \<in> set ds \<Longrightarrow> isDigit x"
    by (simp add: list_all_iff)
  have tw: "takeWhile isDigit (ds @ CHR '')'' # post) = ds"
    using all not_isDigit_paren by (simp add: takeWhile_tail)
  have dw: "dropWhile isDigit (ds @ CHR '')'' # post) = CHR '')'' # post"
    using all not_isDigit_paren by (simp add: dropWhile_append2)
  show "matchHere s = Some ds"
    unfolding matchHere_def s using tw dw ne by simp
qed

lemma matchHere_Nil: "matchHere [] = None"
  by (simp add: matchHere_def curvePattern_def)

lemma Search_Some_iff:
  "Search s \<noteq> None \<longleftrightarrow> (\<exists>pre rest. s = pre @ rest \<and> matchHere rest \<noteq> None)"
proof (induction s)
  case Nil
  show ?case by (simp add: matchHere_Nil)
next
  case (Cons c cs)
  show ?case
  proof (cases "matchHere (c # cs)")
    case (Some g)
    then have "c # cs = [] @ (c # cs) \<and> matchHere (c # cs) \<noteq> None" by simp
    then have "\<exists>pre rest. c # cs = pre @ rest \<and> matchHere rest \<noteq> None" by blast
    with Some show ?thesis by simp
  next
    case None
    have "(\<exists>pre rest. c # cs = pre @ rest \<and> matchHere rest \<noteq> None)
           \<longleftrightarrow> (\<exists>pre rest. cs = pre @ rest \<and> matchHere rest \<noteq> None)"
    proof
      assume "\<exists>pre rest. c # cs = pre @ rest \<and> matchHere rest \<noteq> None"
      then obtain pre rest where e: "c # cs = pre @ rest" and m: "matchHere rest \<noteq> None"
        by blast
      show "\<exists>pre rest. cs = pre @ rest \<and> matchHere rest \<noteq> None"
      proof (cases pre)
        case Nil
        with e m None show ?thesis by simp
      next
        case (Cons p ps)
        with e have "cs = ps @ rest" by simp
        with m show ?thesis by blast
      qed
    next
      assume "\<exists>pre rest. cs = pre @ rest \<and> matchHere rest \<noteq> None"
      then obtain pre rest where "cs = pre @ rest" and m: "matchHere rest \<noteq> None"
        by blast
      then have "c # cs = (c # pre) @ rest" by simp
      with m show "\<exists>pre rest. c # cs = pre @ rest \<and> matchHere rest \<noteq> None" by blast
    qed
    with None Cons.IH show ?thesis by simp
  qed
qed

lemma Search_recognized: "Search msg \<noteq> None \<longleftrightarrow> recognized msg"
proof -
  have "(\<exists>pre rest. msg = pre @ rest \<and> matchHere rest \<noteq> None) \<longleftrightarrow> recognized msg"
    unfolding recognized_def
  proof
    assume "\<exists>pre rest. msg = pre @ rest \<and> matchHere rest \<noteq> None"
    then obtain pre rest ds where "msg = pre @ rest" "matchHere rest = Some ds"
      by auto
    then show "\<exists>pre ds post. msg = pre @ curvePattern @ ds @ '')'' @ post \<and> ds \<noteq> [] \<and> list_all isDigit ds"
      unfolding matchHere_Some_iff by blast
  next
    assume "\<exists>pre ds post. msg = pre @ curvePattern @ ds @ '')'' @ post \<and> ds \<noteq> [] \<and> list_all isDigit ds"
    then obtain pre ds post where t: "msg = pre @ (curvePattern @ ds @ '')'' @ post)"
      and d: "ds \<noteq> []" "list_all isDigit ds"
      by auto
    from d have "matchHere (curvePattern @ ds @ '')'' @ post) = Some ds"
      unfolding matchHere_Some_iff by blast
    with t show "\<exists>pre rest. msg = pre @ rest \<and> matchHere rest \<noteq> None"
      by (metis option.distinct(1))
  qed
  then show ?thesis
    using Search_Some_iff [of msg] by blast
qed

text \<open>A run of \<^verbatim>\<open>Client\<close> against the engine that rejects group 24.\<close>

lemma engine24_msg_Search:
  "Search ''unsupported Curve in KeyShareExtension: CurveID(24).To mimic it, fill the Data(key) field manually'' = Some ''24''"
  by (simp add: matchHere_def curvePattern_def isDigit_def)

lemma Atoi_24: "Atoi ''24'' = Inr 24"
  by (simp add: Atoi_def isDigit_def digitVal_def)

lemma engine24_record:
  "setSpecErrWithError NewClient ''example.com''
     ''unsupported Curve in KeyShareExtension: CurveID(24).To mimic it, fill the Data(key) field manually''
   = (True, NewClient(''example.com'' \<mapsto> {24}))"
  by (simp add: setSpecErrWithError_def engine24_msg_Search Atoi_24 setSpecErrWithKeyShareExtension_def NewClient_def
        del: Search.simps)

lemma Client_engine24:
  "Client engine24 NewClient template_23_24_29 True ''example.com''
     = Some (Handshake pruned_23_29, NewClient(''example.com'' \<mapsto> {24}), 2)"
proof -
  have c: "createSpecWithSpec template_23_24_29 True False = Inr template_23_24_29"
    by (simp add: createSpecWithSpec_def)
  have p0: "snd (changeSpec NewClient ''example.com'' template_23_24_29) = template_23_24_29"
    by (simp add: changeSpec_def NewClient_def)
  have e0: "engine24 0 template_23_24_29 =
     (Some ''unsupported Curve in KeyShareExtension: CurveID(24).To mimic it, fill the Data(key) field manually'', template_23_24_29)"
    by (simp add: engine24_def template_23_24_29_def)
  have p1: "changeSpec (NewClient(''example.com'' \<mapsto> {24})) ''example.com'' template_23_24_29 = (True, pruned_23_29)"
    by (simp add: changeSpec_def NewClient_def template_23_24_29_def pruned_23_29_def)
  have e1: "engine24 1 pruned_23_29 = (None, pruned_23_29)"
    by (simp add: engine24_def pruned_23_29_def)
  have l1: "Client_loop engine24 ''example.com'' (NewClient(''example.com'' \<mapsto> {24})) pruned_23_29 (Suc 0)
      = Some (Handshake pruned_23_29, NewClient(''example.com'' \<mapsto> {24}), 2)"
    using e1 by (subst Client_loop.simps) simp
  have "Client_loop engine24 ''example.com'' NewClient template_23_24_29 0
      = Some (Handshake pruned_23_29, NewClient(''example.com'' \<mapsto> {24}), 2)"
    using e0 engine24_record p1 l1 by (subst Client_loop.simps) simp
  with c p0 show ?thesis by (simp add: Client_def)
qed

text \<open>
  Calls that do not overlap. After \<^verbatim>\<open>setSpecErrWithKeyShareExtension\<close> has recorded group
  \<open>G\<close> for destination \<open>D\<close>, a second call with the same \<open>G\<close> returns \<open>changed = False\<close> and
  leaves the registry as the first call left it; the record of \<open>D\<close> is then the old
  rejected set with \<open>G\<close> inserted, a set, so \<open>G\<close> is in it once. Neither operation that
  writes the registry
  (\<^verbatim>\<open>setSpecErrWithKeyShareExtension\<close>, \<^verbatim>\<open>setSpecErrWithError\<close>) removes a group from the
  rejected set of any destination \<open>k\<close>, and neither does a run of \<^verbatim>\<open>Client\<close>, which writes
  the registry through them; \<^verbatim>\<open>changeSpec\<close> only reads the registry.
\<close>

theorem record_idempotent_monotone:
  "setSpecErrWithKeyShareExtension (snd (setSpecErrWithKeyShareExtension obj D G)) D G
     = (False, snd (setSpecErrWithKeyShareExtension obj D G))
   \<and> snd (setSpecErrWithKeyShareExtension obj D G) D = Some (insert G (rejected obj D))
   \<and> G \<in> rejected (snd (setSpecErrWithKeyShareExtension obj D G)) D
   \<and> rejected obj k \<subseteq> rejected (snd (setSpecErrWithKeyShareExtension obj D G)) k
   \<and> rejected obj k \<subseteq> rejected (snd (setSpecErrWithError obj D err)) k
   \<and> (Client ApplyPreset obj ja3Spec h2 D = Some (out, obj', n) \<longrightarrow> rejected obj k \<subseteq> rejected obj' k)"
  using Client_mono [of ApplyPreset obj ja3Spec h2 D out obj' n k]
  by (simp add: set_twice set_key set_rejected err_rejected_mono subset_insertI)

theorem record_idempotent_monotone_witness:
  "setSpecErrWithKeyShareExtension (snd (setSpecErrWithKeyShareExtension NewClient ''example.com'' 24)) ''example.com'' 24
     = (False, NewClient(''example.com'' \<mapsto> {24}))
   \<and> snd (setSpecErrWithKeyShareExtension (NewClient(''example.com'' \<mapsto> {24})) ''example.com'' 29) ''example.com''
     = Some {29, 24}
   \<and> Client engine24 NewClient template_23_24_29 True ''example.com''
       = Some (Handshake pruned_23_29, NewClient(''example.com'' \<mapsto> {24}), 2)
   \<and> rejected NewClient ''example.com'' \<subseteq> rejected (NewClient(''example.com'' \<mapsto> {24})) ''example.com''"
  using record_idempotent_monotone [where obj = NewClient and D = "''example.com''" and G = 24
      and k = "''example.com''" and err = "''EOF''" and ApplyPreset = engine24
      and ja3Spec = template_23_24_29 and ?h2.0 = True and out = "Handshake pruned_23_29"
      and obj' = "NewClient(''example.com'' \<mapsto> {24})" and n = 2]
    record_idempotent_monotone [where obj = "NewClient(''example.com'' \<mapsto> {24})" and D = "''example.com''"
      and G = 29 and k = "''example.com''" and err = "''EOF''" and ApplyPreset = engine24
      and ja3Spec = template_23_24_29 and ?h2.0 = True and out = "Handshake pruned_23_29"
      and obj' = "NewClient(''example.com'' \<mapsto> {24})" and n = 2]
    Client_engine24
  by (simp add: setSpecErrWithKeyShareExtension_def NewClient_def rejected_def)

section \<open>Overlapping callers of the registry\<close>

lemmas run_eval = newRegistry_def call_def memory_def

declare step.simps [simp del]

lemma step_alone:
  "run [0, 0, 0] r [call key v] = (r', cs') \<Longrightarrow>
     map at cs' = [Returned (fst (setSpecErrWithKeyShareExtension (view r) key v))]
     \<and> view r' key = snd (setSpecErrWithKeyShareExtension (view r) key v) key"
  by (auto simp: step.simps call_def view_def setSpecErrWithKeyShareExtension_def
      split: option.splits if_splits)

lemma okCaller_mono:
  assumes "okCaller D G r c"
    and "\<And>a. records r a = {G} \<Longrightarrow> records r' a = {G}"
    and "entries r D \<noteq> None \<Longrightarrow> entries r' D \<noteq> None"
  shows "okCaller D G r' c"
  using assms by (cases "at c") (simp_all add: okCaller_def)

lemma step_ok:
  assumes reg: "okRegistry D G r" and cal: "okCaller D G r c" and st: "step r c = (r', c')"
  shows "okRegistry D G r' \<and> okCaller D G r' c' \<and> (\<forall>c2. okCaller D G r c2 \<longrightarrow> okCaller D G r' c2)"
proof (cases "at c")
  case BeforeLoad
  show ?thesis
  proof (cases "entries r D")
    case None
    with BeforeLoad st cal have "r' = r" "c' = c\<lparr>at := BeforeStore\<rparr>"
      by (simp_all add: step.simps okCaller_def)
    with reg cal show ?thesis by (simp add: okCaller_def)
  next
    case (Some a)
    with BeforeLoad st cal have "r' = r" "c' = c\<lparr>at := BeforeHas a\<rparr>"
      by (simp_all add: step.simps okCaller_def)
    with reg cal Some show ?thesis by (simp add: okCaller_def okRegistry_def)
  qed
next
  case (BeforeHas a)
  with cal have "callValue c \<in> records r a"
    by (simp add: okCaller_def)
  with BeforeHas st have "r' = r" "c' = c\<lparr>at := Returned False\<rparr>"
    by (simp_all add: step.simps)
  with reg cal BeforeHas show ?thesis by (simp add: okCaller_def)
next
  case (BeforeAdd a)
  with cal show ?thesis by (simp add: okCaller_def)
next
  case BeforeStore
  from cal have key: "callKey c = D" and val: "callValue c = G"
    by (simp_all add: okCaller_def)
  from BeforeStore st key val
  have r': "r' = r\<lparr>entries := (entries r)(D \<mapsto> created r),
                    records := (records r)(created r := {G}),
                    created := Suc (created r)\<rparr>"
    and c': "c' = c\<lparr>at := Returned True\<rparr>"
    by (simp_all add: step.simps)
  have "okRegistry D G r'"
    by (simp add: r' okRegistry_def)
  moreover have "okCaller D G r' c'"
    using key val by (simp add: r' c' okCaller_def)
  moreover have "okCaller D G r' c2" if "okCaller D G r c2" for c2
    using that by (rule okCaller_mono) (simp_all add: r')
  ultimately show ?thesis by blast
next
  case (Returned change)
  with st have "r' = r" "c' = c"
    by (simp_all add: step.simps)
  with reg cal show ?thesis by simp
qed

lemma run_ok:
  assumes "okRegistry D G r" and "list_all (okCaller D G r) cs" and "run schedule r cs = (r', cs')"
  shows "okRegistry D G r' \<and> list_all (okCaller D G r') cs' \<and> length cs' = length cs"
  using assms
proof (induction schedule arbitrary: r cs)
  case Nil
  then show ?case by simp
next
  case (Cons i schedule)
  show ?case
  proof (cases "i < length cs")
    case False
    with Cons show ?thesis by simp
  next
    case True
    obtain r1 c1 where st: "step r (cs ! i) = (r1, c1)"
      by (cases "step r (cs ! i)")
    from Cons.prems(2) True have "okCaller D G r (cs ! i)"
      by (simp add: list_all_length)
    from step_ok [OF Cons.prems(1) this st]
    have r1: "okRegistry D G r1" and c1: "okCaller D G r1 c1"
      and others: "\<forall>c2. okCaller D G r c2 \<longrightarrow> okCaller D G r1 c2"
      by blast+
    have "list_all (okCaller D G r1) (cs[i := c1])"
      using Cons.prems(2) c1 others
      by (auto simp: list_all_iff dest!: subsetD [OF set_update_subset_insert])
    moreover from Cons.prems(3) True st have "run schedule r1 (cs[i := c1]) = (r', cs')"
      by simp
    ultimately show ?thesis
      using Cons.IH [OF r1] by fastforce
  qed
qed

text \<open>
  With one group reported by all callers for a key without a record, every schedule that
  lets all callers return leaves one record under the key, holding the group.
\<close>

lemma same_group_end_state:
  assumes "entries r D = None" and "0 < N"
    and "run schedule r (replicate N (call D G)) = (r', cs')"
    and "list_all returned cs'"
  shows "(\<exists>a. entries r' D = Some a) \<and> memory r' D = {G}"
proof -
  have "okRegistry D G r"
    using assms(1) by (simp add: okRegistry_def)
  moreover have "list_all (okCaller D G r) (replicate N (call D G))"
    by (simp add: list_all_iff okCaller_def call_def)
  ultimately have ok: "okRegistry D G r'" "list_all (okCaller D G r') cs'" "length cs' = N"
    using run_ok [OF _ _ assms(3)] by simp_all
  from ok(3) assms(2) obtain c where c: "c \<in> set cs'"
    by (cases cs') auto
  with ok(2) assms(4) have "okCaller D G r' c" "returned c"
    by (simp_all add: list_all_iff)
  then have "entries r' D \<noteq> None"
    by (auto simp: okCaller_def returned_def split: position.splits)
  then obtain a where "entries r' D = Some a" by auto
  with ok(1) show ?thesis
    by (simp add: okRegistry_def memory_def)
qed


text \<open>
  Claim C3. Recording a rejection is to be idempotent and monotone: of two calls with the
  same group the second returns \<open>changed = False\<close>, and no call removes a group that is
  present. The code does this for calls that do not overlap (\<open>record_idempotent_monotone\<close>),
  not for overlapping ones. Two callers that report group 24 for a new destination and
  both \<^verbatim>\<open>Load\<close> before either \<^verbatim>\<open>Store\<close> both return \<open>change = True\<close>. And with groups 100
  and 101, after the first \<^verbatim>\<open>Store\<close> the registry holds 100 for the destination, and the
  second \<^verbatim>\<open>Store\<close> replaces the record, so 100 is removed.
\<close>

theorem overlapping_calls_not_idempotent_not_monotone:
  "map at (snd (run [0, 1, 0, 1] newRegistry [call ''example.com'' 24, call ''example.com'' 24]))
     = [Returned True, Returned True]
   \<and> memory (fst (run [0, 1, 0] newRegistry [call ''example.com'' 100, call ''example.com'' 101]))
         ''example.com'' = {100}
   \<and> memory (fst (run [0, 1, 0, 1] newRegistry [call ''example.com'' 100, call ''example.com'' 101]))
         ''example.com'' = {101}
   \<and> 100 \<notin> memory (fst (run [0, 1, 0, 1] newRegistry [call ''example.com'' 100, call ''example.com'' 101]))
         ''example.com''"
  by (simp add: run_eval step.simps)

text \<open>
  Claim C4. Creation of the record of a destination is to be atomic under concurrent
  callers, with no duplicate record and no lost update. The code creates the record by
  \<^verbatim>\<open>Load\<close> followed by \<^verbatim>\<open>Store\<close>. Two callers that report group 24 for a new destination
  and both \<^verbatim>\<open>Load\<close> before either \<^verbatim>\<open>Store\<close> create two records; the registry keeps the
  second, which holds 24 (the end state of this scenario is right for every schedule:
  \<open>same_group_end_state\<close>). With three callers reporting 100, 101 and 102, where the
  first \<^verbatim>\<open>Store\<close>s after the third has loaded the record of the second, all three return
  \<open>change = True\<close> and the registry is left with 100 alone: 101 and 102 are lost.
\<close>

theorem creation_not_atomic:
  "created (fst (run [0, 1, 0, 1] newRegistry [call ''example.com'' 24, call ''example.com'' 24])) = 2
   \<and> entries (fst (run [0, 1, 0, 1] newRegistry [call ''example.com'' 24, call ''example.com'' 24]))
         ''example.com'' = Some 1
   \<and> memory (fst (run [0, 1, 0, 1] newRegistry [call ''example.com'' 24, call ''example.com'' 24]))
         ''example.com'' = {24}
   \<and> map at (snd (run [0, 1, 1, 2, 2, 0, 2] newRegistry
         [call ''example.com'' 100, call ''example.com'' 101, call ''example.com'' 102]))
       = [Returned True, Returned True, Returned True]
   \<and> memory (fst (run [0, 1, 1, 2, 2, 0, 2] newRegistry
         [call ''example.com'' 100, call ''example.com'' 101, call ''example.com'' 102]))
         ''example.com'' = {100}"
  by (simp add: run_eval step.simps)

section \<open>Errors of another shape\<close>

lemma Client_loop_unrecognized:
  assumes "\<not> recognized err" and "fst (ApplyPreset n spec) = Some err"
  shows "Client_loop ApplyPreset key obj spec n = Some (ReturnErr (ExternalError err), obj, Suc n)"
proof -
  from assms(1) have "Search err = None"
    using Search_recognized [of err] by simp
  then have "setSpecErrWithError obj key err = (False, obj)"
    by (simp add: setSpecErrWithError_def)
  moreover obtain spec1 where "ApplyPreset n spec = (Some err, spec1)"
    using assms(2) by (cases "ApplyPreset n spec") simp
  ultimately show ?thesis
    by (subst Client_loop.simps) simp
qed

text \<open>
  Claim C5. For an error whose text does not contain the recognised shape (the literal text
  \<^verbatim>\<open>unsupported Curve in KeyShareExtension: CurveID(\<close>, decimal digits, \<^verbatim>\<open>)\<close>), the
  classifier \<^verbatim>\<open>setSpecErrWithError\<close> returns \<open>False\<close> and leaves the registry as it was; a
  pass of the retry loop that receives such an error returns this very error after that
  attempt, with the registry unchanged; and \<^verbatim>\<open>Client\<close> returns it after one
  \<^verbatim>\<open>ApplyPreset\<close> call when the first attempt fails with it. Conversely, whenever the
  classifier reports a change or alters the registry, the error text has the recognised
  shape.
\<close>

theorem unrecognized_error_surfaced:
  "(\<not> recognized err \<longrightarrow>
      setSpecErrWithError obj key err = (False, obj)
      \<and> (fst (ApplyPreset n spec) = Some err \<longrightarrow>
           Client_loop ApplyPreset key obj spec n = Some (ReturnErr (ExternalError err), obj, Suc n))
      \<and> (createSpecWithSpec ja3Spec h2 False = Inr utlsSpec
           \<and> fst (ApplyPreset 0 (snd (changeSpec obj key utlsSpec))) = Some err \<longrightarrow>
           Client ApplyPreset obj ja3Spec h2 key = Some (ReturnErr (ExternalError err), obj, 1)))
   \<and> (setSpecErrWithError obj key err \<noteq> (False, obj) \<longrightarrow> recognized err)"
proof -
  have a: "setSpecErrWithError obj key err = (False, obj)" if "\<not> recognized err"
  proof -
    from that have "Search err = None"
      using Search_recognized [of err] by simp
    then show ?thesis by (simp add: setSpecErrWithError_def)
  qed
  have b: "Client ApplyPreset obj ja3Spec h2 key = Some (ReturnErr (ExternalError err), obj, 1)"
    if "\<not> recognized err" "createSpecWithSpec ja3Spec h2 False = Inr utlsSpec"
      "fst (ApplyPreset 0 (snd (changeSpec obj key utlsSpec))) = Some err"
    using that Client_loop_unrecognized [of err ApplyPreset 0 "snd (changeSpec obj key utlsSpec)" key obj]
    by (simp add: Client_def)
  show ?thesis
    using a b Client_loop_unrecognized [of err ApplyPreset n spec key obj] by blast
qed

theorem unrecognized_error_surfaced_witness:
  "\<not> recognized ''EOF''
   \<and> setSpecErrWithError NewClient ''example.com'' ''EOF'' = (False, NewClient)
   \<and> Client engineEOF NewClient template_23_24_29 True ''example.com''
       = Some (ReturnErr (ExternalError ''EOF''), NewClient, 1)
   \<and> setSpecErrWithError NewClient ''example.com''
         ''unsupported Curve in KeyShareExtension: CurveID(24).To mimic it, fill the Data(key) field manually''
       = (True, NewClient(''example.com'' \<mapsto> {24}))
   \<and> recognized ''unsupported Curve in KeyShareExtension: CurveID(24).To mimic it, fill the Data(key) field manually''"
proof -
  have h: "\<not> recognized ''EOF''"
    by (simp add: Search_recognized [symmetric] matchHere_def curvePattern_def)
  have c: "createSpecWithSpec template_23_24_29 True False = Inr template_23_24_29"
    by (simp add: createSpecWithSpec_def)
  have e: "fst (engineEOF 0 (snd (changeSpec NewClient ''example.com'' template_23_24_29))) = Some ''EOF''"
    by (simp add: engineEOF_def)
  have r: "setSpecErrWithError NewClient ''example.com''
         ''unsupported Curve in KeyShareExtension: CurveID(24).To mimic it, fill the Data(key) field manually''
       \<noteq> (False, NewClient)"
    by (simp add: engine24_record)
  show ?thesis
    using h c e r engine24_record
      unrecognized_error_surfaced [of "''EOF''" NewClient "''example.com''" engineEOF 0 template_23_24_29
        template_23_24_29 True template_23_24_29]
      unrecognized_error_surfaced [of
        "''unsupported Curve in KeyShareExtension: CurveID(24).To mimic it, fill the Data(key) field manually''"
        NewClient "''example.com''" engine24 0 template_23_24_29 template_23_24_29 True template_23_24_29]
    by simp
qed




section \<open>What \<^verbatim>\<open>changeSpec\<close> reports\<close>

lemma filter_ne_list_ex: "(filter P xs \<noteq> []) = list_ex P xs"
  by (simp add: filter_empty_conv list_ex_iff)

lemma changeSpec_ext_fst:
  "fst (changeSpec_ext se change ext) = (change \<or> (se \<noteq> {} \<and> hasSurvivor se ext))"
  by (cases ext) (auto simp: keyShares_loop_eq curves_loop_eq card_specErr_pos filter_ne_list_ex)

lemma changeSpec_exts_fst:
  "fst (changeSpec_exts se change exts) = (change \<or> (se \<noteq> {} \<and> list_ex (hasSurvivor se) exts))"
proof (induction exts arbitrary: change)
  case Nil
  show ?case by simp
next
  case (Cons ext exts)
  obtain c1 e1 where step: "changeSpec_ext se change ext = (c1, e1)"
    by (cases "changeSpec_ext se change ext")
  obtain c2 es where rest: "changeSpec_exts se c1 exts = (c2, es)"
    by (cases "changeSpec_exts se c1 exts")
  have "c1 = (change \<or> (se \<noteq> {} \<and> hasSurvivor se ext))"
    using changeSpec_ext_fst [of se change ext] step by simp
  moreover have "c2 = (c1 \<or> (se \<noteq> {} \<and> list_ex (hasSurvivor se) exts))"
    using Cons.IH [of c1] rest by simp
  ultimately show ?case
    using step rest by auto
qed

lemma changeSpec_fst:
  "fst (changeSpec obj key spec) =
     (\<exists>se. obj key = Some se \<and> se \<noteq> {} \<and> list_ex (hasSurvivor se) (Extensions spec))"
proof (cases "obj key")
  case None
  then show ?thesis by (simp add: changeSpec_def)
next
  case (Some se)
  obtain c es where r: "changeSpec_exts se False (Extensions spec) = (c, es)"
    by (cases "changeSpec_exts se False (Extensions spec)")
  with changeSpec_exts_fst [of se False "Extensions spec"]
  have "c = (se \<noteq> {} \<and> list_ex (hasSurvivor se) (Extensions spec))" by simp
  with Some r show ?thesis by (simp add: changeSpec_def)
qed

lemma err_True_key:
  assumes "fst (setSpecErrWithError obj key err)"
  shows "\<exists>se. snd (setSpecErrWithError obj key err) key = Some se \<and> se \<noteq> {}
           \<and> se = rejected (snd (setSpecErrWithError obj key err)) key"
proof -
  from assms err_cases [of obj key err]
  obtain i where "setSpecErrWithError obj key err = setSpecErrWithKeyShareExtension obj key (word_of_int i)"
    by auto
  then show ?thesis
    by (simp add: set_key rejected_def)
qed

text \<open>
  No record of the registry is empty: a record is created holding one group, and the
  two writing operations only add to it.
\<close>

lemma NewClient_no_empty: "NewClient key \<noteq> Some {}"
  by (simp add: NewClient_def)

lemma set_no_empty:
  "obj key \<noteq> Some {} \<Longrightarrow> snd (setSpecErrWithKeyShareExtension obj k v) key \<noteq> Some {}"
  by (auto simp: setSpecErrWithKeyShareExtension_def split: option.splits if_splits)

lemma err_no_empty:
  "obj key \<noteq> Some {} \<Longrightarrow> snd (setSpecErrWithError obj k err) key \<noteq> Some {}"
  using err_cases [of obj k err] set_no_empty [of obj key k] by auto

text \<open>
  Claim C10. \<^verbatim>\<open>changeSpec\<close> returns \<open>True\<close> exactly when the key has a record and some
  key-share or supported-curves entry of the spec is outside the rejected set: it reports
  that an entry survives, not that one was removed. The record of a key is never empty in
  a registry built by the package (it is created holding one group and only grows), which
  is the hypothesis \<open>obj key \<noteq> Some {}\<close>. In the retry loop, when the classifier has recorded
  the group of the error and no key-share or curve entry is left outside the rejected set,
  the loop returns the error of the engine and makes no further attempt.
\<close>

theorem changeSpec_reports_survivor:
  "(obj key \<noteq> Some {} \<longrightarrow>
      fst (changeSpec obj key spec)
        = (obj key \<noteq> None \<and> list_ex (hasSurvivor (rejected obj key)) (Extensions spec)))
   \<and> (fst (ApplyPreset n spec) = Some err
       \<and> fst (setSpecErrWithError obj key err)
       \<and> \<not> list_ex (hasSurvivor (rejected (snd (setSpecErrWithError obj key err)) key))
               (Extensions (snd (ApplyPreset n spec)))
       \<longrightarrow> Client_loop ApplyPreset key obj spec n
             = Some (ReturnErr (ExternalError err), snd (setSpecErrWithError obj key err), Suc n))"
proof -
  have a: "fst (changeSpec obj key spec)
        = (obj key \<noteq> None \<and> list_ex (hasSurvivor (rejected obj key)) (Extensions spec))"
    if "obj key \<noteq> Some {}"
    using that by (cases "obj key") (auto simp: changeSpec_fst rejected_def)
  have b: "Client_loop ApplyPreset key obj spec n
             = Some (ReturnErr (ExternalError err), snd (setSpecErrWithError obj key err), Suc n)"
    if eng: "fst (ApplyPreset n spec) = Some err"
      and rec: "fst (setSpecErrWithError obj key err)"
      and none: "\<not> list_ex (hasSurvivor (rejected (snd (setSpecErrWithError obj key err)) key))
               (Extensions (snd (ApplyPreset n spec)))"
  proof -
    obtain spec1 where e: "ApplyPreset n spec = (Some err, spec1)"
      using eng by (cases "ApplyPreset n spec") simp
    obtain obj' where cls: "setSpecErrWithError obj key err = (True, obj')"
      using rec by (cases "setSpecErrWithError obj key err") simp
    have "\<not> fst (changeSpec obj' key spec1)"
      using none e cls by (auto simp: changeSpec_fst rejected_def)
    then obtain spec2 where "changeSpec obj' key spec1 = (False, spec2)"
      by (cases "changeSpec obj' key spec1") simp
    with e cls show ?thesis
      by (subst Client_loop.simps) simp
  qed
  show ?thesis using a b by blast
qed

theorem changeSpec_reports_survivor_witness:
  "fst (changeSpec (NewClient(''example.com'' \<mapsto> {24})) ''example.com'' template_23_24_29)
   \<and> fst (changeSpec (NewClient(''example.com'' \<mapsto> {7})) ''example.com'' template_23_24_29)
   \<and> \<not> fst (changeSpec (NewClient(''example.com'' \<mapsto> {24})) ''example.com'' only24)
   \<and> \<not> fst (changeSpec NewClient ''example.com'' template_23_24_29)
   \<and> Client_loop engine24 ''example.com'' NewClient only24 0
       = Some (ReturnErr (ExternalError
            ''unsupported Curve in KeyShareExtension: CurveID(24).To mimic it, fill the Data(key) field manually''),
          NewClient(''example.com'' \<mapsto> {24}), 1)"
proof -
  let ?msg = "''unsupported Curve in KeyShareExtension: CurveID(24).To mimic it, fill the Data(key) field manually''"
  have e: "engine24 0 only24 = (Some ?msg, only24)"
    by (simp add: engine24_def only24_def)
  have h1: "(NewClient(''example.com'' \<mapsto> {24})) ''example.com'' \<noteq> Some {}"
    and h2: "(NewClient(''example.com'' \<mapsto> {7})) ''example.com'' \<noteq> Some {}"
    and h3: "NewClient ''example.com'' \<noteq> Some {}"
    by (simp_all add: NewClient_def)
  have n: "\<not> list_ex (hasSurvivor (rejected (NewClient(''example.com'' \<mapsto> {24})) ''example.com'')) (Extensions only24)"
    by (simp add: rejected_def only24_def)
  show ?thesis
    using changeSpec_reports_survivor [of "NewClient(''example.com'' \<mapsto> {24})" "''example.com''" template_23_24_29
        engine24 0 ?msg]
      changeSpec_reports_survivor [of "NewClient(''example.com'' \<mapsto> {7})" "''example.com''" template_23_24_29
        engine24 0 ?msg]
      changeSpec_reports_survivor [of "NewClient(''example.com'' \<mapsto> {24})" "''example.com''" only24
        engine24 0 ?msg]
      changeSpec_reports_survivor [of NewClient "''example.com''" template_23_24_29 engine24 0 ?msg]
      changeSpec_reports_survivor [of NewClient "''example.com''" only24 engine24 0 ?msg]
      h1 h2 h3 e n engine24_record
    by (simp add: rejected_def NewClient_def template_23_24_29_def only24_def)
qed

section \<open>Protocol-mode adjustment\<close>

lemma Index_remove1:
  "(case Index xs v of Some i \<Rightarrow> Delete xs i (i + 1) | None \<Rightarrow> xs) = remove1 v xs"
  by (induction xs) (auto simp: Delete_def split: option.splits)

lemma Contains_set: "Contains xs v = (v \<in> set xs)"
  unfolding Contains_def by (induction xs) auto

lemma h1_protocols_eq:
  "h1_protocols ps =
     (if ''http/1.1'' \<in> set (remove1 ''h2'' ps) then remove1 ''h2'' ps
      else ''http/1.1'' # remove1 ''h2'' ps)"
  by (simp add: h1_protocols_def Index_remove1 Contains_set)

lemma h3_loop_eq: "h3_loop exts = setFirstALPN [NextProtoH3] exts"
  by (induction exts rule: h3_loop.induct) simp_all

lemma h1_loop_eq:
  "h1_loop exts = (case firstALPN exts of None \<Rightarrow> exts | Some ps \<Rightarrow> setFirstALPN (h1_protocols ps) exts)"
  by (induction exts rule: h1_loop.induct) (simp_all split: option.splits)

lemma setFirstALPN_None: "firstALPN exts = None \<Longrightarrow> setFirstALPN ps' exts = exts"
  by (induction exts rule: firstALPN.induct) simp_all

lemma firstALPN_set: "firstALPN exts = Some ps \<Longrightarrow> firstALPN (setFirstALPN ps' exts) = Some ps'"
  by (induction exts rule: firstALPN.induct) simp_all

lemma remove1_single: "count_list xs v \<le> 1 \<Longrightarrow> v \<notin> set (remove1 v xs)"
proof (induction xs)
  case Nil
  show ?case by simp
next
  case (Cons x xs)
  show ?case
  proof (cases "x = v")
    case True
    with Cons.prems have "count_list xs v = 0" by simp
    then have "v \<notin> set xs" by (simp add: count_list_0_iff)
    with True show ?thesis by simp
  next
    case False
    with Cons show ?thesis by simp
  qed
qed

text \<open>
  In HTTP/1.1-only mode a list that already has \<^verbatim>\<open>http/1.1\<close> behind another protocol keeps
  that order: \<^verbatim>\<open>h2\<close> is removed and \<^verbatim>\<open>http/1.1\<close> is not moved to the front.
\<close>

theorem h1_not_first_counterexample:
  "createSpecWithSpec
     \<lparr>CipherSuites = [4865], CompressionMethods = [0],
      Extensions = [ALPNExtension [''h2'', ''spdy/3.1'', ''http/1.1'']],
      TLSVersMin = 769, TLSVersMax = 772, GetSessionID = NilFunc\<rparr> False False
   = Inr \<lparr>CipherSuites = [4865], CompressionMethods = [0],
      Extensions = [ALPNExtension [''spdy/3.1'', ''http/1.1'']],
      TLSVersMin = 769, TLSVersMax = 772, GetSessionID = NilFunc\<rparr>
   \<and> hd [''spdy/3.1'', ''http/1.1''] \<noteq> ''http/1.1''"
  by (simp add: createSpecWithSpec_def h1_protocols_def Delete_def Contains_def)

text \<open>
  Claim C7, amended. \<^verbatim>\<open>createSpecWithSpec\<close> never returns an error and changes nothing but
  the protocol list of the first ALPN extension. Without an ALPN extension, and in the
  default mode (\<open>h2\<close> set, \<open>h3\<close> not), the spec is returned as supplied. In HTTP/3 mode the
  list becomes the single HTTP/3 identifier. In HTTP/1.1-only mode the first occurrence of
  \<^verbatim>\<open>h2\<close> is removed and \<^verbatim>\<open>http/1.1\<close> is put in front only if it is not in the remaining
  list: afterwards \<^verbatim>\<open>http/1.1\<close> is present; it is first when it was absent before; and
  \<^verbatim>\<open>h2\<close> is gone when it occurred at most once.
\<close>

theorem createSpecWithSpec_alpn:
  "(\<exists>spec'. createSpecWithSpec utlsSpec h2 h3 = Inr spec'
       \<and> CipherSuites spec' = CipherSuites utlsSpec
       \<and> CompressionMethods spec' = CompressionMethods utlsSpec
       \<and> GetSessionID spec' = GetSessionID utlsSpec
       \<and> spec' = utlsSpec\<lparr>Extensions := Extensions spec'\<rparr>
       \<and> (firstALPN (Extensions utlsSpec) = None \<longrightarrow> spec' = utlsSpec)
       \<and> (\<not> h3 \<and> h2 \<longrightarrow> spec' = utlsSpec)
       \<and> (\<forall>ps. firstALPN (Extensions utlsSpec) = Some ps \<longrightarrow>
             (h3 \<longrightarrow> Extensions spec' = setFirstALPN [NextProtoH3] (Extensions utlsSpec)
                    \<and> firstALPN (Extensions spec') = Some [NextProtoH3])
           \<and> (\<not> h3 \<and> \<not> h2 \<longrightarrow>
                 Extensions spec' = setFirstALPN (h1_protocols ps) (Extensions utlsSpec)
               \<and> firstALPN (Extensions spec') = Some (h1_protocols ps)
               \<and> h1_protocols ps =
                   (if ''http/1.1'' \<in> set (remove1 ''h2'' ps) then remove1 ''h2'' ps
                    else ''http/1.1'' # remove1 ''h2'' ps)
               \<and> ''http/1.1'' \<in> set (h1_protocols ps)
               \<and> (''http/1.1'' \<notin> set ps \<longrightarrow> hd (h1_protocols ps) = ''http/1.1'')
               \<and> (count_list ps ''h2'' \<le> 1 \<longrightarrow> ''h2'' \<notin> set (h1_protocols ps)))))"
proof -
  have in1: "''http/1.1'' \<in> set (h1_protocols ps)" for ps
    by (simp add: h1_protocols_eq)
  have hd1: "hd (h1_protocols ps) = ''http/1.1''" if "''http/1.1'' \<notin> set ps" for ps
  proof -
    from that have "''http/1.1'' \<notin> set (remove1 ''h2'' ps)"
      using notin_set_remove1 by fastforce
    then show ?thesis by (simp add: h1_protocols_eq)
  qed
  have noh2: "''h2'' \<notin> set (h1_protocols ps)" if "count_list ps ''h2'' \<le> 1" for ps
    using remove1_single [OF that] by (simp add: h1_protocols_eq)
  show ?thesis
    using in1 hd1 noh2
    by (auto simp: createSpecWithSpec_def h3_loop_eq h1_loop_eq setFirstALPN_None firstALPN_set
        h1_protocols_eq)
qed

theorem createSpecWithSpec_alpn_witness:
  "firstALPN (Extensions template_23_24_29) = Some [''h2'', ''http/1.1'']
   \<and> createSpecWithSpec template_23_24_29 False False
       = Inr (template_23_24_29\<lparr>Extensions :=
           [SupportedCurvesExtension [23, 24, 29],
            ALPNExtension [''http/1.1''],
            KeyShareExtension
              [\<lparr>Group = 23, Data = []\<rparr>, \<lparr>Group = 24, Data = []\<rparr>, \<lparr>Group = 29, Data = []\<rparr>]]\<rparr>)
   \<and> createSpecWithSpec template_23_24_29 False True
       = Inr (template_23_24_29\<lparr>Extensions :=
           [SupportedCurvesExtension [23, 24, 29],
            ALPNExtension [''h3''],
            KeyShareExtension
              [\<lparr>Group = 23, Data = []\<rparr>, \<lparr>Group = 24, Data = []\<rparr>, \<lparr>Group = 29, Data = []\<rparr>]]\<rparr>)
   \<and> createSpecWithSpec template_23_24_29 True False = Inr template_23_24_29
   \<and> createSpecWithSpec only24 False False = Inr only24
   \<and> createSpecWithSpec (only24\<lparr>Extensions := [ALPNExtension [''h2'']]\<rparr>) False False
       = Inr (only24\<lparr>Extensions := [ALPNExtension [''http/1.1'']]\<rparr>)"
proof -
  have f: "firstALPN (Extensions template_23_24_29) = Some [''h2'', ''http/1.1'']"
    by (simp add: template_23_24_29_def)
  have g: "firstALPN (Extensions only24) = None"
    by (simp add: only24_def)
  have p: "h1_protocols [''h2'', ''http/1.1''] = [''http/1.1'']"
    by (simp add: h1_protocols_def Delete_def Contains_def)
  show ?thesis
    using f g p
      createSpecWithSpec_alpn [of template_23_24_29 False False]
      createSpecWithSpec_alpn [of template_23_24_29 False True]
      createSpecWithSpec_alpn [of template_23_24_29 True False]
      createSpecWithSpec_alpn [of only24 False False]
      createSpecWithSpec_alpn [of "only24\<lparr>Extensions := [ALPNExtension [''h2'']]\<rparr>" False False]
    by (simp add: createSpecWithSpec_def template_23_24_29_def only24_def NextProtoH3_def p
        h1_protocols_def Delete_def Contains_def)
qed

section \<open>Properties of the decoder\<close>

lemma parseDigits_eq:
  "parseDigits n cs =
     (if list_all isDigit cs then Some (foldl (\<lambda>a c. a * 10 + digitVal c) n cs) else None)"
  by (induction cs arbitrary: n) simp_all

lemma digitVal_nonneg: "isDigit c \<Longrightarrow> 0 \<le> digitVal c"
proof -
  assume "isDigit c"
  then have "48 \<le> int (of_char c)"
    by (simp add: isDigit_def)
  then show ?thesis
    by (simp add: digitVal_def of_nat_of_char)
qed

lemma foldl_digits_nonneg:
  "list_all isDigit cs \<Longrightarrow> 0 \<le> n \<Longrightarrow> 0 \<le> foldl (\<lambda>a c. a * 10 + digitVal c) n cs"
proof (induction cs arbitrary: n)
  case Nil
  then show ?case by simp
next
  case (Cons c cs)
  from Cons.prems have "0 \<le> n * 10 + digitVal c"
    using digitVal_nonneg [of c] by simp
  with Cons show ?case by simp
qed

lemma Atoi_Inr_iff: "Atoi s = Inr i \<longleftrightarrow> inIntRange s \<and> i = decimalValue s"
proof -
  let ?body = "if take 1 s = ''-'' \<or> take 1 s = ''+'' then drop 1 s else s"
  let ?n = "foldl (\<lambda>a c. a * 10 + digitVal c) 0 ?body"
  show ?thesis
  proof (cases "?body \<noteq> [] \<and> list_all isDigit ?body")
    case False
    then have "\<not> numeric s"
      unfolding numeric_def Let_def by blast
    moreover from False have "Atoi s = Inl (NumError s)"
      by (auto simp: Atoi_def Let_def parseDigits_eq)
    ultimately show ?thesis by (simp add: inIntRange_def)
  next
    case True
    then have num: "numeric s"
      unfolding numeric_def Let_def by blast
    from True have nn: "0 \<le> ?n"
      using foldl_digits_nonneg [of ?body 0] by simp
    from True have pd: "parseDigits 0 ?body = Some ?n"
      by (simp add: parseDigits_eq)
    show ?thesis
    proof (cases "take 1 s = ''-''")
      case neg: True
      then have dv: "decimalValue s = - ?n"
        by (simp add: decimalValue_def Let_def)
      from neg True pd have "Atoi s = (if ?n \<le> 2 ^ 63 then Inr (- ?n) else Inl (NumError s))"
        by (simp add: Atoi_def Let_def)
      with num dv nn show ?thesis
        by (auto simp: inIntRange_def)
    next
      case pos: False
      then have dv: "decimalValue s = ?n"
        by (simp add: decimalValue_def Let_def)
      from pos True pd have "Atoi s = (if ?n < 2 ^ 63 then Inr ?n else Inl (NumError s))"
        by (simp add: Atoi_def Let_def)
      with num dv nn show ?thesis
        by (auto simp: inIntRange_def)
    qed
  qed
qed

lemma Atoi_Inl_iff: "(\<exists>e. Atoi s = Inl e) \<longleftrightarrow> \<not> inIntRange s"
proof (cases "Atoi s")
  case (Inl e)
  then show ?thesis using Atoi_Inr_iff [of s] by auto
next
  case (Inr i)
  then show ?thesis using Atoi_Inr_iff [of s i] by auto
qed

lemma settings_loop_eq:
  "settings_loop toks acc =
     (if list_all settingOK toks then Inr (acc @ map parseSetting toks)
      else settings_loop toks acc)
   \<and> (\<not> list_all settingOK toks \<longrightarrow> isl (settings_loop toks acc))"
proof (induction toks arbitrary: acc)
  case Nil
  show ?case by simp
next
  case (Cons t toks)
  show ?case
  proof (cases "settingOK t")
    case False
    then have "isl (settings_loop (t # toks) acc)"
      using Atoi_Inl_iff [of "Split t CHR '':'' ! 0"] Atoi_Inl_iff [of "Split t CHR '':'' ! 1"]
      by (auto simp: settingOK_def Let_def split: sum.splits)
    with False show ?thesis by simp
  next
    case True
    then have k: "Atoi (Split t CHR '':'' ! 0) = Inr (decimalValue (Split t CHR '':'' ! 0))"
      and v: "Atoi (Split t CHR '':'' ! 1) = Inr (decimalValue (Split t CHR '':'' ! 1))"
      and l: "length (Split t CHR '':'') = 2"
      by (simp_all add: settingOK_def Atoi_Inr_iff)
    have step: "settings_loop (t # toks) acc = settings_loop toks (acc @ [parseSetting t])"
      using k v l by (simp add: parseSetting_def Let_def)
    show ?thesis
      using Cons.IH [of "acc @ [parseSetting t]"] True step by auto
  qed
qed

lemma headers_loop_eq: "headers_loop toks acc = acc @ concat (map letterHeader toks)"
  by (induction toks arbitrary: acc) (simp_all add: letterHeader_def)

lemma CreateH2SpecWithStr_eq:
  "CreateH2SpecWithStr s =
     (if length (Split s CHR ''|'') = 4
         \<and> list_all settingOK (Split (Split s CHR ''|'' ! 0) CHR '','')
         \<and> inIntRange (Split s CHR ''|'' ! 1)
      then Inr \<lparr>InitialSetting = map parseSetting (Split (Split s CHR ''|'' ! 0) CHR '',''),
                ConnFlow = word_of_int (decimalValue (Split s CHR ''|'' ! 1)),
                OrderHeaders = concat (map letterHeader (Split (Split s CHR ''|'' ! 3) CHR '','')),
                Priority = \<lparr>StreamDep = 0, Exclusive = False, Weight = 0\<rparr>\<rparr>
      else CreateH2SpecWithStr s)
   \<and> (\<not> (length (Split s CHR ''|'') = 4
         \<and> list_all settingOK (Split (Split s CHR ''|'' ! 0) CHR '','')
         \<and> inIntRange (Split s CHR ''|'' ! 1)) \<longrightarrow> isl (CreateH2SpecWithStr s))"
proof -
  let ?tokens = "Split s CHR ''|''"
  let ?sets = "Split (?tokens ! 0) CHR '',''"
  show ?thesis
  proof (cases "length ?tokens = 4")
    case False
    then show ?thesis by (simp add: CreateH2SpecWithStr_def Let_def)
  next
    case len: True
    show ?thesis
    proof (cases "list_all settingOK ?sets")
      case False
      then have "isl (settings_loop ?sets [])"
        using settings_loop_eq [of ?sets "[]"] by simp
      then obtain e where "settings_loop ?sets [] = Inl e"
        by (cases "settings_loop ?sets []") simp_all
      with len False show ?thesis by (simp add: CreateH2SpecWithStr_def Let_def)
    next
      case ok: True
      then have sl: "settings_loop ?sets [] = Inr (map parseSetting ?sets)"
        using settings_loop_eq [of ?sets "[]"] by simp
      show ?thesis
      proof (cases "inIntRange (?tokens ! 1)")
        case False
        then obtain e where "Atoi (?tokens ! 1) = Inl e"
          using Atoi_Inl_iff [of "?tokens ! 1"] by blast
        with len sl False show ?thesis by (simp add: CreateH2SpecWithStr_def Let_def)
      next
        case True
        then have "Atoi (?tokens ! 1) = Inr (decimalValue (?tokens ! 1))"
          by (simp add: Atoi_Inr_iff)
        with len sl ok True show ?thesis
          by (simp add: CreateH2SpecWithStr_def Let_def headers_loop_eq)
      qed
    qed
  qed
qed

text \<open>
  Claim C6, amended. \<^verbatim>\<open>CreateH2SpecWithStr\<close> returns an error exactly when the text does
  not split on \<^verbatim>\<open>|\<close> into four fields, or some token of the settings field does not split
  on \<^verbatim>\<open>:\<close> into two components that are both decimal integers (an optional sign, then
  digits) within the range of a 64-bit \<^verbatim>\<open>int\<close>, or the flow field is not such an integer.
  On success the header list holds the names of the known letters of the fourth field, in
  order, and nothing for any other token. The third field is not looked at: two texts of
  four fields that agree on the other three give the same result.
\<close>

theorem CreateH2SpecWithStr_error_iff:
  "(isl (CreateH2SpecWithStr s) \<longleftrightarrow>
      \<not> (length (Split s CHR ''|'') = 4
         \<and> list_all settingOK (Split (Split s CHR ''|'' ! 0) CHR '','')
         \<and> inIntRange (Split s CHR ''|'' ! 1)))
   \<and> (\<forall>spec. CreateH2SpecWithStr s = Inr spec \<longrightarrow>
         OrderHeaders spec = concat (map letterHeader (Split (Split s CHR ''|'' ! 3) CHR '','')))
   \<and> (length (Split s CHR ''|'') = 4 \<and> length (Split s' CHR ''|'') = 4
       \<and> Split s' CHR ''|'' ! 0 = Split s CHR ''|'' ! 0
       \<and> Split s' CHR ''|'' ! 1 = Split s CHR ''|'' ! 1
       \<and> Split s' CHR ''|'' ! 3 = Split s CHR ''|'' ! 3
       \<longrightarrow> CreateH2SpecWithStr s' = CreateH2SpecWithStr s)"
proof -
  let ?ok = "\<lambda>s. length (Split s CHR ''|'') = 4
         \<and> list_all settingOK (Split (Split s CHR ''|'' ! 0) CHR '','')
         \<and> inIntRange (Split s CHR ''|'' ! 1)"
  have a: "isl (CreateH2SpecWithStr s) \<longleftrightarrow> \<not> ?ok s"
  proof (cases "?ok s")
    case True
    then have "\<not> isl (CreateH2SpecWithStr s)"
      using CreateH2SpecWithStr_eq [of s] by (metis sum.disc(2))
    with True show ?thesis by blast
  next
    case False
    then show ?thesis using CreateH2SpecWithStr_eq [of s] by blast
  qed
  have b: "OrderHeaders spec = concat (map letterHeader (Split (Split s CHR ''|'' ! 3) CHR '',''))"
    if "CreateH2SpecWithStr s = Inr spec" for spec
  proof -
    from that have "\<not> isl (CreateH2SpecWithStr s)" by simp
    with a have "?ok s" by blast
    with that CreateH2SpecWithStr_eq [of s] show ?thesis by auto
  qed
  have c: "CreateH2SpecWithStr s' = CreateH2SpecWithStr s"
    if "length (Split s CHR ''|'') = 4" "length (Split s' CHR ''|'') = 4"
       "Split s' CHR ''|'' ! 0 = Split s CHR ''|'' ! 0"
       "Split s' CHR ''|'' ! 1 = Split s CHR ''|'' ! 1"
       "Split s' CHR ''|'' ! 3 = Split s CHR ''|'' ! 3"
    unfolding CreateH2SpecWithStr_def Let_def that by (rule refl)
  show ?thesis using a b c by blast
qed

lemmas codec_eval =
  CreateH2SpecWithStr_def Fp_def Atoi_def isDigit_def digitVal_def lowerASCII_def lowerASCIIChar_def

lemma example_decode: "CreateH2SpecWithStr example_fp = Inr example_spec"
  by (simp add: example_fp_def example_spec_def codec_eval)

lemma example_encode: "Fp lowerASCII example_spec = example_fp"
  by (simp add: example_fp_def example_spec_def codec_eval)

text \<open>
  A flow field of twenty digits is numeric, and so are both components of the only
  settings token, yet the decoder returns the range error of \<^verbatim>\<open>strconv.Atoi\<close>.
\<close>

theorem numeric_out_of_range_counterexample:
  "Split ''1:2|99999999999999999999|0|m'' CHR ''|'' = [''1:2'', ''99999999999999999999'', ''0'', ''m'']
   \<and> Split ''1:2'' CHR '','' = [''1:2'']
   \<and> Split ''1:2'' CHR '':'' = [''1'', ''2'']
   \<and> numeric ''1'' \<and> numeric ''2'' \<and> numeric ''99999999999999999999''
   \<and> CreateH2SpecWithStr ''1:2|99999999999999999999|0|m'' = Inl (NumError ''99999999999999999999'')"
  by (simp add: numeric_def codec_eval)

theorem CreateH2SpecWithStr_error_iff_witness:
  "CreateH2SpecWithStr example_fp = Inr example_spec
   \<and> OrderHeaders example_spec = ['':method'', '':authority'', '':scheme'', '':path'']
   \<and> CreateH2SpecWithStr ''1:65536,2:0,4:6291456,6:262144|15663105|reserved|m,a,s,p'' = Inr example_spec
   \<and> CreateH2SpecWithStr ''1:2|3|0|m,x,,p'' =
        Inr \<lparr>InitialSetting = [\<lparr>Id' = 1, Val = 2\<rparr>], ConnFlow = 3,
             OrderHeaders = ['':method'', '':path''],
             Priority = \<lparr>StreamDep = 0, Exclusive = False, Weight = 0\<rparr>\<rparr>
   \<and> isl (CreateH2SpecWithStr ''1:2|3|0'')
   \<and> isl (CreateH2SpecWithStr ''1:2:3|3|0|m'')
   \<and> isl (CreateH2SpecWithStr ''1:x|3|0|m'')
   \<and> isl (CreateH2SpecWithStr ''1:2|x|0|m'')"
  using CreateH2SpecWithStr_error_iff [of example_fp "''1:65536,2:0,4:6291456,6:262144|15663105|reserved|m,a,s,p''"]
    CreateH2SpecWithStr_error_iff [of "''1:2|3|0|m,x,,p''" "''1:2|3|0|m,x,,p''"]
    CreateH2SpecWithStr_error_iff [of "''1:2|3|0''" "''1:2|3|0''"]
    CreateH2SpecWithStr_error_iff [of "''1:2:3|3|0|m''" "''1:2:3|3|0|m''"]
    CreateH2SpecWithStr_error_iff [of "''1:x|3|0|m''" "''1:x|3|0|m''"]
    CreateH2SpecWithStr_error_iff [of "''1:2|x|0|m''" "''1:2|x|0|m''"]
    example_decode
  by (simp add: example_fp_def example_spec_def codec_eval)

text \<open>
  The encoder writes an empty settings field for a spec without settings, and the decoder
  rejects that field: \<^verbatim>\<open>strings.Split\<close> of the empty text yields one empty token, which
  does not split into two components. So the text \<^verbatim>\<open>Fp\<close> produces for such a spec (here
  the default flow and header order without settings, and the zero value of \<^verbatim>\<open>H2Spec\<close>) is
  not decoded but answered with \<^verbatim>\<open>h2 setting error\<close>.
\<close>

theorem Fp_empty_settings_counterexample:
  "Fp lowerASCII \<lparr>InitialSetting = [], ConnFlow = 15663105,
       OrderHeaders = ['':method'', '':authority'', '':scheme'', '':path''],
       Priority = \<lparr>StreamDep = 0, Exclusive = True, Weight = 255\<rparr>\<rparr> = ''|15663105|0|m,a,s,p''
   \<and> CreateH2SpecWithStr ''|15663105|0|m,a,s,p'' = Inl H2SettingError
   \<and> Fp lowerASCII \<lparr>InitialSetting = [], ConnFlow = 0, OrderHeaders = [],
         Priority = \<lparr>StreamDep = 0, Exclusive = False, Weight = 0\<rparr>\<rparr> = ''|0|0|''
   \<and> CreateH2SpecWithStr ''|0|0|'' = Inl H2SettingError"
  by (simp add: codec_eval)

section \<open>Round trip of the codec for specs with settings\<close>

text \<open>
  For a spec with at least one setting, the text of \<^verbatim>\<open>Fp\<close> decodes to the settings, the
  flow value and the represented pseudo-headers of the spec, and encoding the decoded
  value gives the text again. The lemmas below lead to \<open>decode_Fp\<close> and \<open>Fp_roundtrip\<close>.
\<close>

declare formatUint.simps [simp del]

lemma Split_no_sep: "sep \<notin> set x \<Longrightarrow> Split x sep = [x]"
  by (induction x) auto

lemma Split_append_sep: "sep \<notin> set x \<Longrightarrow> Split (x @ sep # rest) sep = x # Split rest sep"
  by (induction x) auto

lemma Split_Join:
  "xs \<noteq> [] \<Longrightarrow> (\<forall>x \<in> set xs. sep \<notin> set x) \<Longrightarrow> Split (Join xs [sep]) sep = xs"
proof (induction xs "[sep]" rule: Join.induct)
  case 1
  then show ?case by simp
next
  case (2 x)
  then show ?case by (simp add: Split_no_sep)
next
  case (3 x y ys)
  then show ?case by (simp add: Split_append_sep)
qed

lemma set_Join: "set (Join xs sep) \<subseteq> (\<Union>x \<in> set xs. set x) \<union> set sep"
  by (induction xs sep rule: Join.induct) auto

lemma digit_nth:
  assumes "k < 10"
  shows "isDigit (''0123456789'' ! k)" and "digitVal (''0123456789'' ! k) = int k"
proof -
  from assms have "k \<in> {0, 1, 2, 3, 4, 5, 6, 7, 8, 9}" by auto
  then show "isDigit (''0123456789'' ! k)" and "digitVal (''0123456789'' ! k) = int k"
    by (auto simp: isDigit_def digitVal_def)
qed

lemma formatUint_digits: "formatUint n \<noteq> [] \<and> list_all isDigit (formatUint n)"
proof (induction n rule: formatUint.induct)
  case (1 n)
  show ?case
  proof (cases "n < 10")
    case True
    then show ?thesis
      by (subst formatUint.simps, subst (2) formatUint.simps) (simp add: digit_nth)
  next
    case False
    with 1 show ?thesis
      by (subst formatUint.simps, subst (2) formatUint.simps) (simp add: digit_nth)
  qed
qed

lemma formatUint_value: "foldl (\<lambda>a c. a * 10 + digitVal c) 0 (formatUint n) = int n"
proof (induction n rule: formatUint.induct)
  case (1 n)
  show ?case
  proof (cases "n < 10")
    case True
    then show ?thesis
      by (subst formatUint.simps) (simp add: digit_nth)
  next
    case False
    then have "foldl (\<lambda>a c. a * 10 + digitVal c) 0 (formatUint n)
        = int (n div 10) * 10 + int (n mod 10)"
      using 1 by (subst formatUint.simps) (simp add: digit_nth)
    also have "\<dots> = int n"
      by (simp add: of_nat_mod of_nat_div)
    finally show ?thesis .
  qed
qed

lemma formatUint_no_sep:
  "CHR '':'' \<notin> set (formatUint n)" "CHR '','' \<notin> set (formatUint n)" "CHR ''|'' \<notin> set (formatUint n)"
proof -
  have d: "\<And>c. c \<in> set (formatUint n) \<Longrightarrow> isDigit c"
    using formatUint_digits [of n] by (simp add: list_all_iff)
  show "CHR '':'' \<notin> set (formatUint n)" "CHR '','' \<notin> set (formatUint n)" "CHR ''|'' \<notin> set (formatUint n)"
    using d [of "CHR '':''"] d [of "CHR '',''"] d [of "CHR ''|''"] by (auto simp: isDigit_def)
qed

lemma formatUint_unsigned:
  "take 1 (formatUint n) \<noteq> ''-''" "take 1 (formatUint n) \<noteq> ''+''"
proof -
  obtain c cs where f: "formatUint n = c # cs"
    using formatUint_digits [of n] by (cases "formatUint n") auto
  then have "isDigit c"
    using formatUint_digits [of n] by simp
  with f show "take 1 (formatUint n) \<noteq> ''-''" "take 1 (formatUint n) \<noteq> ''+''"
    by (auto simp: isDigit_def)
qed

lemma Atoi_formatUint: "int n < 2 ^ 63 \<Longrightarrow> Atoi (formatUint n) = Inr (int n)"
proof -
  assume r: "int n < 2 ^ 63"
  have num: "numeric (formatUint n)"
    using formatUint_digits [of n] formatUint_unsigned [of n] by (simp add: numeric_def)
  have val: "decimalValue (formatUint n) = int n"
    using formatUint_value [of n] formatUint_unsigned [of n] by (simp add: decimalValue_def)
  from r num val have "inIntRange (formatUint n)"
    by (simp add: inIntRange_def)
  with val show ?thesis
    by (simp add: Atoi_Inr_iff)
qed

lemma unat16_range: "int (unat (w :: 16 word)) < 2 ^ 63"
proof -
  have "uint w < 2 ^ 16" using uint_lt2p [of w] by simp
  then show ?thesis by simp
qed

lemma unat32_range: "int (unat (w :: 32 word)) < 2 ^ 63"
proof -
  have "uint w < 2 ^ 32" using uint_lt2p [of w] by simp
  then show ?thesis by simp
qed

lemma settings_strings_eq: "settings_strings xs acc = acc @ map formatSetting xs"
  by (induction xs arbitrary: acc) (simp_all add: formatSetting_def)

lemma heads_letters_eq:
  "heads_letters ToLower hs acc = acc @ concat (map (\<lambda>h. headLetter (ToLower h)) hs)"
  by (induction hs arbitrary: acc) (simp_all add: headLetter_def Let_def)

lemma Split_formatSetting:
  "Split (formatSetting x) CHR '':'' = [formatUint (unat (Id' x)), formatUint (unat (Val x))]"
  using Split_append_sep [of "CHR '':''" "formatUint (unat (Id' x))" "formatUint (unat (Val x))"]
  by (simp add: formatSetting_def formatUint_no_sep Split_no_sep)

lemma settingOK_formatSetting: "settingOK (formatSetting x)"
  using Atoi_formatUint [OF unat16_range, of "Id' x"] Atoi_formatUint [OF unat32_range, of "Val x"]
  by (simp add: settingOK_def Split_formatSetting Atoi_Inr_iff)

lemma parseSetting_formatSetting: "parseSetting (formatSetting (x :: Setting)) = x"
proof -
  have "decimalValue (formatUint (unat (Id' x))) = int (unat (Id' x))"
    using Atoi_formatUint [OF unat16_range, of "Id' x"] by (simp add: Atoi_Inr_iff)
  moreover have "decimalValue (formatUint (unat (Val x))) = int (unat (Val x))"
    using Atoi_formatUint [OF unat32_range, of "Val x"] by (simp add: Atoi_Inr_iff)
  ultimately show ?thesis
    by (simp add: parseSetting_def Split_formatSetting)
qed

lemma formatSetting_no_sep: "CHR '','' \<notin> set (formatSetting x)" "CHR ''|'' \<notin> set (formatSetting x)"
  by (simp_all add: formatSetting_def formatUint_no_sep)

lemma headLetter_no_sep:
  "l \<in> set (headLetter h) \<Longrightarrow> CHR '','' \<notin> set l \<and> CHR ''|'' \<notin> set l"
  by (auto simp: headLetter_def split: if_splits)

lemma letterHeader_headLetter:
  "concat (map letterHeader (concat (map (\<lambda>h. headLetter (ToLower h)) hs))) = pseudoHeaders ToLower hs"
  by (induction hs) (auto simp: pseudoHeaders_def headLetter_def letterHeader_def)

lemma headLetter_pseudoHeaders:
  assumes "keepsPseudoHeaders ToLower"
  shows "concat (map (\<lambda>h. headLetter (ToLower h)) (pseudoHeaders ToLower hs))
           = concat (map (\<lambda>h. headLetter (ToLower h)) hs)"
  using assms by (induction hs) (auto simp: pseudoHeaders_def headLetter_def keepsPseudoHeaders_def)

lemma lowerASCII_keeps: "keepsPseudoHeaders lowerASCII"
  by (simp add: keepsPseudoHeaders_def lowerASCII_def lowerASCIIChar_def)

lemma Split_letters:
  assumes "\<forall>l \<in> set ls. CHR '','' \<notin> set l"
  shows "concat (map letterHeader (Split (Join ls '','') CHR '','')) = concat (map letterHeader ls)"
proof (cases "ls = []")
  case True
  then show ?thesis by (simp add: letterHeader_def)
next
  case False
  with assms show ?thesis by (simp add: Split_Join)
qed

lemma decode_Fp:
  assumes "InitialSetting p \<noteq> []"
  shows "CreateH2SpecWithStr (Fp ToLower p) =
           Inr \<lparr>InitialSetting = InitialSetting p, ConnFlow = ConnFlow p,
                OrderHeaders = pseudoHeaders ToLower (OrderHeaders p),
                Priority = \<lparr>StreamDep = 0, Exclusive = False, Weight = 0\<rparr>\<rparr>"
proof -
  let ?sets = "map formatSetting (InitialSetting p)"
  let ?ls = "concat (map (\<lambda>h. headLetter (ToLower h)) (OrderHeaders p))"
  let ?A = "Join ?sets '',''"
  let ?B = "formatUint (unat (ConnFlow p))"
  let ?D = "Join ?ls '',''"
  have fp: "Fp ToLower p = Join [?A, ?B, ''0'', ?D] ''|''"
    by (simp add: Fp_def settings_strings_eq heads_letters_eq)
  have ls: "\<forall>l \<in> set ?ls. CHR '','' \<notin> set l \<and> CHR ''|'' \<notin> set l"
    using headLetter_no_sep by auto
  have A: "CHR ''|'' \<notin> set ?A"
    using set_Join [of ?sets "'',''"] formatSetting_no_sep(2) by auto
  have D: "CHR ''|'' \<notin> set ?D"
    using set_Join [of ?ls "'',''"] ls by auto
  have tokens: "Split (Fp ToLower p) CHR ''|'' = [?A, ?B, ''0'', ?D]"
    unfolding fp using A D formatUint_no_sep(3) [of "unat (ConnFlow p)"]
    by (intro Split_Join) simp_all
  have settings: "Split ?A CHR '','' = ?sets"
    using assms formatSetting_no_sep(1) by (intro Split_Join) auto
  have ok: "list_all settingOK ?sets"
    by (simp add: list_all_iff settingOK_formatSetting)
  have flow: "inIntRange ?B" "decimalValue ?B = int (unat (ConnFlow p))"
    using Atoi_formatUint [OF unat32_range, of "ConnFlow p"] by (simp_all add: Atoi_Inr_iff)
  have same: "map parseSetting ?sets = InitialSetting p"
    by (simp add: map_idI parseSetting_formatSetting)
  have heads: "concat (map letterHeader (Split ?D CHR '','')) = pseudoHeaders ToLower (OrderHeaders p)"
    using Split_letters [of ?ls] ls by (simp add: letterHeader_headLetter)
  show ?thesis
    using CreateH2SpecWithStr_eq [of "Fp ToLower p"] tokens settings ok flow same heads by simp
qed

text \<open>
  Claim C2, amended. With \<^verbatim>\<open>int\<close> of 64 bits, as \<open>Atoi\<close> has it here, and for every lower-casing
  function in the place of \<^verbatim>\<open>strings.ToLower\<close>: for every \<^verbatim>\<open>H2Spec\<close> with at least one
  setting, the text produced by \<^verbatim>\<open>Fp\<close> is decoded by \<^verbatim>\<open>CreateH2SpecWithStr\<close> without error,
  and the decoded value has the settings of the spec in order, its \<^verbatim>\<open>ConnFlow\<close>, and its
  header names lower-cased and restricted to the four pseudo-headers, in order. When the
  lower-casing function leaves the four lower-case names as they are, as
  \<^verbatim>\<open>strings.ToLower\<close> does, encoding the decoded value gives the same text again. In
  particular the text of the documentation decodes and encodes to itself.
\<close>

theorem Fp_roundtrip:
  "InitialSetting p \<noteq> [] \<longrightarrow>
     (\<exists>q. CreateH2SpecWithStr (Fp ToLower p) = Inr q
           \<and> InitialSetting q = InitialSetting p \<and> ConnFlow q = ConnFlow p
           \<and> OrderHeaders q = pseudoHeaders ToLower (OrderHeaders p)
           \<and> (keepsPseudoHeaders ToLower \<longrightarrow> Fp ToLower q = Fp ToLower p))"
proof
  assume "InitialSetting p \<noteq> []"
  from decode_Fp [OF this, of ToLower]
  show "\<exists>q. CreateH2SpecWithStr (Fp ToLower p) = Inr q
           \<and> InitialSetting q = InitialSetting p \<and> ConnFlow q = ConnFlow p
           \<and> OrderHeaders q = pseudoHeaders ToLower (OrderHeaders p)
           \<and> (keepsPseudoHeaders ToLower \<longrightarrow> Fp ToLower q = Fp ToLower p)"
    by (simp add: Fp_def settings_strings_eq heads_letters_eq headLetter_pseudoHeaders)
qed

theorem Fp_roundtrip_witness:
  "InitialSetting example_spec \<noteq> [] \<and> keepsPseudoHeaders lowerASCII
   \<and> Fp lowerASCII example_spec = ''1:65536,2:0,4:6291456,6:262144|15663105|0|m,a,s,p''
   \<and> CreateH2SpecWithStr ''1:65536,2:0,4:6291456,6:262144|15663105|0|m,a,s,p'' = Inr example_spec
   \<and> pseudoHeaders lowerASCII (OrderHeaders example_spec) = OrderHeaders example_spec
   \<and> Fp lowerASCII mixed_spec = ''1:65536,4:4294967295|15663105|0|m,p,a''
   \<and> CreateH2SpecWithStr ''1:65536,4:4294967295|15663105|0|m,p,a''
       = Inr \<lparr>InitialSetting = [\<lparr>Id' = 1, Val = 65536\<rparr>, \<lparr>Id' = 4, Val = 4294967295\<rparr>],
              ConnFlow = 15663105,
              OrderHeaders = ['':method'', '':path'', '':authority''],
              Priority = \<lparr>StreamDep = 0, Exclusive = False, Weight = 0\<rparr>\<rparr>"
proof -
  have ne: "InitialSetting example_spec \<noteq> []" "InitialSetting mixed_spec \<noteq> []"
    by (simp_all add: example_spec_def mixed_spec_def)
  have ph: "pseudoHeaders lowerASCII (OrderHeaders example_spec) = OrderHeaders example_spec"
    by (simp add: example_spec_def pseudoHeaders_def lowerASCII_def lowerASCIIChar_def)
  have mx: "Fp lowerASCII mixed_spec = ''1:65536,4:4294967295|15663105|0|m,p,a''"
    by (simp add: mixed_spec_def Fp_def lowerASCII_def lowerASCIIChar_def formatUint.simps)
  have dm: "CreateH2SpecWithStr ''1:65536,4:4294967295|15663105|0|m,p,a''
       = Inr \<lparr>InitialSetting = [\<lparr>Id' = 1, Val = 65536\<rparr>, \<lparr>Id' = 4, Val = 4294967295\<rparr>],
              ConnFlow = 15663105,
              OrderHeaders = ['':method'', '':path'', '':authority''],
              Priority = \<lparr>StreamDep = 0, Exclusive = False, Weight = 0\<rparr>\<rparr>"
    by (simp add: CreateH2SpecWithStr_def Atoi_def isDigit_def digitVal_def)
  show ?thesis
    using ne ph mx dm lowerASCII_keeps Fp_roundtrip [of example_spec lowerASCII]
      Fp_roundtrip [of mixed_spec lowerASCII] example_encode example_decode
    by (simp add: example_fp_def)
qed

section \<open>The spec builder\<close>

text \<open>
  For a preset identifier the builder hands back what \<^verbatim>\<open>utls.UTLSIdToSpec\<close> returns; with
  a preset whose \<^verbatim>\<open>GetSessionID\<close> is unset, so is that of the result.
\<close>

theorem preset_session_id_counterexample:
  "CreateSpecWithClientHello decodeAny extOpaque presetsNilFunc (IDValue (ClientHelloID ''Firefox'' ''55''))
     = Inr \<lparr>CipherSuites = [4865], CompressionMethods = [0], Extensions = [],
            TLSVersMin = 769, TLSVersMax = 772, GetSessionID = NilFunc\<rparr>
   \<and> NilFunc \<noteq> Sha256Sum256"
  by (simp add: CreateSpecWithClientHello_def presetsNilFunc_def)

text \<open>
  Claim C9, amended. For a raw byte capture and for a hex-encoded capture, every spec the
  builder returns has \<^verbatim>\<open>GetSessionID\<close> set to \<^verbatim>\<open>sha256.Sum256\<close>. For a preset identifier
  the result is that of \<^verbatim>\<open>utls.UTLSIdToSpec\<close>, unchanged, and any other kind of argument
  is answered with the type error.
\<close>

theorem CreateSpecWithClientHello_session_id:
  "(CreateSpecWithClientHello decodeClientHello utlsExt UTLSIdToSpec (BytesValue bytes) = Inr spec
      \<longrightarrow> GetSessionID spec = Sha256Sum256)
   \<and> (CreateSpecWithClientHello decodeClientHello utlsExt UTLSIdToSpec (StringValue str) = Inr spec
      \<longrightarrow> GetSessionID spec = Sha256Sum256)
   \<and> CreateSpecWithClientHello decodeClientHello utlsExt UTLSIdToSpec (IDValue v) = UTLSIdToSpec v
   \<and> CreateSpecWithClientHello decodeClientHello utlsExt UTLSIdToSpec (OtherValue t) = Inl ClientHelloTypeError"
  by (auto simp: CreateSpecWithClientHello_def specOfClientHello_def split: sum.splits)

theorem CreateSpecWithClientHello_session_id_witness:
  "CreateSpecWithClientHello decodeAny extOpaque presetsNilFunc (BytesValue [22, 3, 1])
     = Inr \<lparr>CipherSuites = [4865], CompressionMethods = [0], Extensions = [],
            TLSVersMin = 0, TLSVersMax = 0, GetSessionID = Sha256Sum256\<rparr>
   \<and> CreateSpecWithClientHello decodeAny extOpaque presetsNilFunc (StringValue ''160301'')
     = Inr \<lparr>CipherSuites = [4865], CompressionMethods = [0], Extensions = [],
            TLSVersMin = 0, TLSVersMax = 0, GetSessionID = Sha256Sum256\<rparr>
   \<and> DecodeString ''160301'' = Inr [22, 3, 1]
   \<and> CreateSpecWithClientHello decodeAny extOpaque presetsNilFunc (StringValue ''16030'') = Inl HexError"
  using CreateSpecWithClientHello_session_id [of decodeAny extOpaque presetsNilFunc "[22, 3, 1]"
      "\<lparr>CipherSuites = [4865], CompressionMethods = [0], Extensions = [],
            TLSVersMin = 0, TLSVersMax = 0, GetSessionID = Sha256Sum256\<rparr>" "''160301''"]
  by (simp add: CreateSpecWithClientHello_def specOfClientHello_def decodeAny_def fromHexChar_def)

end
